theory Spec2Isabelle
  imports Main
begin

section \<open>Python values used by the formatter\<close>

text \<open>
  A Python \<open>str\<close> is a sequence of Unicode code points; \<open>len\<close>, indexing and slicing
  count code points.  Code points are natural numbers, and every code point of a
  Python string is at most \<open>0x10FFFF\<close> (\<open>valid_str\<close>).  Surrogate code points
  (\<open>0xD800..0xDFFF\<close>) are allowed in a Python string.
\<close>

type_synonym codepoint = nat
type_synonym pystr = "codepoint list"

definition valid_str :: "pystr \<Rightarrow> bool" where
  "valid_str s = list_all (\<lambda>c. c \<le> 0x10FFFF) s"

definition is_high :: "nat \<Rightarrow> bool" where
  "is_high u = (0xD800 \<le> u \<and> u \<le> 0xDBFF)"

definition is_low :: "nat \<Rightarrow> bool" where
  "is_low u = (0xDC00 \<le> u \<and> u \<le> 0xDFFF)"

definition is_surrogate :: "nat \<Rightarrow> bool" where
  "is_surrogate u = (is_high u \<or> is_low u)"

text \<open>The exceptions the modelled code can raise.\<close>

datatype error =
    UnicodeEncodeError
  | UnicodeDecodeError
  | StructError
  | AttributeError
  | KeyError

fun map_result :: "('a \<Rightarrow> error + 'b) \<Rightarrow> 'a list \<Rightarrow> error + 'b list" where
  "map_result f [] = Inr []"
| "map_result f (x # xs) =
     (case f x of
        Inl e \<Rightarrow> Inl e
      | Inr y \<Rightarrow> (case map_result f xs of Inl e \<Rightarrow> Inl e | Inr ys \<Rightarrow> Inr (y # ys)))"

section \<open>The UTF-16 codecs of the Python runtime\<close>

text \<open>
  \<open>str.encode("utf-16le")\<close> and \<open>str.encode("utf-16", errors)\<close>, at the level of 16-bit
  code units.  A code point below \<open>0x10000\<close> is one unit, any other one is a high and a
  low surrogate unit.  A surrogate code point is refused unless the error handler is
  \<open>surrogatepass\<close>.
\<close>

definition utf16_units :: "bool \<Rightarrow> codepoint \<Rightarrow> error + nat list" where
  "utf16_units surrogatepass c =
     (if c < 0x10000 then
        (if is_surrogate c \<and> \<not> surrogatepass then Inl UnicodeEncodeError else Inr [c])
      else Inr [0xD800 + (c - 0x10000) div 0x400, 0xDC00 + (c - 0x10000) mod 0x400])"

definition encode_utf16le :: "pystr \<Rightarrow> error + nat list" where
  "encode_utf16le s =
     (case map_result (utf16_units False) s of Inl e \<Rightarrow> Inl e | Inr us \<Rightarrow> Inr (concat us))"

text \<open>\<open>"utf-16"\<close> writes a byte order mark in the machine's byte order first.\<close>

definition encode_utf16 :: "bool \<Rightarrow> pystr \<Rightarrow> error + nat list" where
  "encode_utf16 surrogatepass s =
     (case map_result (utf16_units surrogatepass) s of
        Inl e \<Rightarrow> Inl e
      | Inr us \<Rightarrow> Inr (0xFEFF # concat us))"

text \<open>
  \<open>bytes.decode("utf-16")\<close> with the default strict error handler: a high surrogate unit
  must be followed by a low one, and the two make one code point; a low surrogate unit
  met first, a high one followed by anything else, and a high one at the end of the data
  raise \<open>UnicodeDecodeError\<close>.
\<close>

fun decode_units :: "nat list \<Rightarrow> error + pystr" where
  "decode_units [] = Inr []"
| "decode_units (u # us) =
     (if is_high u then
        (case us of
           [] \<Rightarrow> Inl UnicodeDecodeError
         | v # vs \<Rightarrow>
             if is_low v then
               (case decode_units vs of
                  Inl e \<Rightarrow> Inl e
                | Inr r \<Rightarrow> Inr ((0x10000 + (u - 0xD800) * 0x400 + (v - 0xDC00)) # r))
             else Inl UnicodeDecodeError)
      else if is_low u then Inl UnicodeDecodeError
      else (case decode_units us of Inl e \<Rightarrow> Inl e | Inr r \<Rightarrow> Inr (u # r)))"

definition byteswap :: "nat \<Rightarrow> nat" where
  "byteswap u = (u mod 256) * 256 + u div 256"

text \<open>The decoder reads the byte order from a leading byte order mark and drops it.\<close>

definition decode_utf16 :: "nat list \<Rightarrow> error + pystr" where
  "decode_utf16 us =
     (case us of
        [] \<Rightarrow> Inr []
      | b # rest \<Rightarrow>
          if b = 0xFEFF then decode_units rest
          else if b = 0xFFFE then decode_units (map byteswap rest)
          else decode_units (b # rest))"

text \<open>
  \<open>struct.unpack("<HH", data)\<close> reads exactly two little-endian 16-bit units, the units
  \<open>"utf-16le"\<close> wrote; data of any other size raises \<open>struct.error\<close>.
\<close>

definition struct_unpack_HH :: "nat list \<Rightarrow> error + nat list" where
  "struct_unpack_HH us = (case us of [a, b] \<Rightarrow> Inr [a, b] | _ \<Rightarrow> Inl StructError)"

section \<open>The offset codec: \<open>add_surrogate\<close> and \<open>del_surrogate\<close>\<close>

text \<open>
  One character \<open>x\<close> of the generator in \<open>add_surrogate\<close>:
  \<^verbatim>\<open>"".join(chr(y) for y in struct.unpack("<HH", x.encode("utf-16le")))
     if (0x10000 <= ord(x) <= 0x10FFFF) else x\<close>
\<close>

definition add_surrogate_char :: "codepoint \<Rightarrow> error + pystr" where
  "add_surrogate_char x =
     (if 0x10000 \<le> x \<and> x \<le> 0x10FFFF then
        (case encode_utf16le [x] of Inl e \<Rightarrow> Inl e | Inr us \<Rightarrow> struct_unpack_HH us)
      else Inr [x])"

definition add_surrogate :: "pystr \<Rightarrow> error + pystr" where
  "add_surrogate text =
     (case map_result add_surrogate_char text of Inl e \<Rightarrow> Inl e | Inr cs \<Rightarrow> Inr (concat cs))"

text \<open>\<^verbatim>\<open>text.encode("utf-16", "surrogatepass").decode("utf-16")\<close>\<close>

definition del_surrogate :: "pystr \<Rightarrow> error + pystr" where
  "del_surrogate text =
     (case encode_utf16 True text of Inl e \<Rightarrow> Inl e | Inr us \<Rightarrow> decode_utf16 us)"

text \<open>
  What the spec calls \<open>expand\<close>, in its own words: a code point of value at least
  \<open>0x10000\<close> becomes its two UTF-16 surrogate code units, every other character passes
  through.
\<close>

definition high_unit :: "codepoint \<Rightarrow> nat" where
  "high_unit c = 0xD800 + (c - 0x10000) div 0x400"

definition low_unit :: "codepoint \<Rightarrow> nat" where
  "low_unit c = 0xDC00 + (c - 0x10000) mod 0x400"

definition expand_char :: "codepoint \<Rightarrow> pystr" where
  "expand_char c = (if c < 0x10000 then [c] else [high_unit c, low_unit c])"

definition expand :: "pystr \<Rightarrow> pystr" where
  "expand s = concat (map expand_char s)"

text \<open>
  A surrogate code point of a string is lone when it cannot be paired: a high surrogate
  that is not directly followed by a low one, or a low surrogate that is not directly
  preceded by a high one.
\<close>

definition lone_at :: "pystr \<Rightarrow> nat \<Rightarrow> bool" where
  "lone_at s i =
     ((is_high (s ! i) \<and> (Suc i \<ge> length s \<or> \<not> is_low (s ! Suc i))) \<or>
      (is_low (s ! i) \<and> (i = 0 \<or> \<not> is_high (s ! (i - 1)))))"

definition has_lone_surrogate :: "pystr \<Rightarrow> bool" where
  "has_lone_surrogate s = list_ex (lone_at s) [0..<length s]"

definition no_surrogates :: "pystr \<Rightarrow> bool" where
  "no_surrogates s = list_all (\<lambda>c. \<not> is_surrogate c) s"

text \<open>The decoder's view of the same thing: the surrogates of \<open>s\<close> pair up from the left.\<close>

fun paired :: "pystr \<Rightarrow> bool" where
  "paired [] = True"
| "paired (c # cs) =
     (if is_high c then (case cs of [] \<Rightarrow> False | d # ds \<Rightarrow> is_low d \<and> paired ds)
      else if is_low c then False
      else paired cs)"

section \<open>Text constants, slicing and \<open>html.escape\<close>\<close>

definition ascii :: "string \<Rightarrow> pystr" where
  "ascii s = map of_char s"

text \<open>
  Python's \<open>s[i:j]\<close> and \<open>s[i:]\<close> with integer bounds never raise: a negative bound
  counts from the end, and every bound is clamped to \<open>0..len(s)\<close>.
\<close>

definition slice_index :: "nat \<Rightarrow> int \<Rightarrow> nat" where
  "slice_index n i = (if i < 0 then nat (max 0 (int n + i)) else min n (nat i))"

definition pyslice :: "'a list \<Rightarrow> int \<Rightarrow> int \<Rightarrow> 'a list" where
  "pyslice xs i j =
     (let lo = slice_index (length xs) i; hi = slice_index (length xs) j
      in take (hi - lo) (drop lo xs))"

definition pyslice_from :: "'a list \<Rightarrow> int \<Rightarrow> 'a list" where
  "pyslice_from xs i = drop (slice_index (length xs) i) xs"

text \<open>\<open>str.replace(old, new)\<close> for a one-character \<open>old\<close>.\<close>

definition str_replace_char :: "codepoint \<Rightarrow> pystr \<Rightarrow> pystr \<Rightarrow> pystr" where
  "str_replace_char old new s = concat (map (\<lambda>x. if x = old then new else [x]) s)"

text \<open>
  \<open>html.escape(s)\<close> with its default \<open>quote=True\<close>: five replacements in a row, the
  ampersand first.
\<close>

definition html_escape :: "pystr \<Rightarrow> pystr" where
  "html_escape s =
     str_replace_char 0x27 (ascii ''&#x27;'')
       (str_replace_char 0x22 (ascii ''&quot;'')
         (str_replace_char 0x3E (ascii ''&gt;'')
           (str_replace_char 0x3C (ascii ''&lt;'')
             (str_replace_char 0x26 (ascii ''&amp;'') s))))"

section \<open>The data model\<close>

type_synonym uuid = nat
type_synonym user_id = pystr

text \<open>
  \<open>Mention\<close> and its subclass \<open>MentionEntity\<close>, whose \<open>offset\<close> property reads and
  writes \<open>start\<close>.
\<close>

record mention =
  uuid :: "uuid option"
  start :: int
  length_m :: int

record puppet =
  puppet_uuid :: "uuid option"
  puppet_name :: "pystr option"
  puppet_mxid :: pystr

record user =
  user_uuid :: "uuid option"

record message_data =
  message_body :: pystr
  message_mentions :: "mention list"

datatype MessageType = TEXT | EMOTE | NOTICE | OTHER_MSGTYPE

datatype Format = HTML

record content =
  msgtype :: MessageType
  body :: pystr
  format :: "Format option"
  formatted_body :: "pystr option"

text \<open>A \<open>SignalFormatString\<close>: the text and the mention entities attached to it.\<close>

record fstring =
  text_fs :: pystr
  entities :: "mention list"

text \<open>
  The entity kinds \<open>format\<close> names; \<open>OTHER_ENTITY\<close> stands for every other member of
  the enumeration.
\<close>

datatype EntityType =
    USER_MENTION | BOLD | ITALIC | STRIKETHROUGH | URL | PREFORMATTED
  | INLINE_CODE | BLOCKQUOTE | HEADER | OTHER_ENTITY

text \<open>
  The keyword arguments of \<open>format\<close>: a key is absent (\<open>None\<close>) or carries a value.  The
  value under \<open>uuid\<close> may itself be Python's \<open>None\<close>.
\<close>

record kwargs =
  kw_uuid :: "uuid option option"
  kw_url :: "pystr option"
  kw_language :: "pystr option"
  kw_size :: "int option"

definition no_kwargs :: kwargs where
  "no_kwargs = \<lparr>kw_uuid = None, kw_url = None, kw_language = None, kw_size = None\<rparr>"

section \<open>Inbound conversion: \<open>signal_to_matrix\<close>\<close>

text \<open>\<open>puppet.name or puppet.mxid\<close>: the name unless it is \<open>None\<close> or empty.\<close>

definition name_or_mxid :: "puppet \<Rightarrow> pystr" where
  "name_or_mxid p =
     (case puppet_name p of
        None \<Rightarrow> puppet_mxid p
      | Some n \<Rightarrow> if n = [] then puppet_mxid p else n)"

text \<open>\<^verbatim>\<open>f'<a href="https://matrix.to/#/{puppet.mxid}">{name}</a>'\<close>\<close>

definition anchor :: "puppet \<Rightarrow> pystr \<Rightarrow> pystr" where
  "anchor p name =
     ascii ''<a href='' @ [0x22] @ ascii ''https://matrix.to/#/'' @ puppet_mxid p @ [0x22]
       @ ascii ''>'' @ name @ ascii ''</a>''"

text \<open>
  The body of \<open>for mention in message.mentions\<close>.  The state of the loop is
  \<open>(last_offset, text_chunks, html_chunks)\<close>.  \<open>Puppet.get_by_address\<close> is the lookup
  collaborator, a parameter here; on \<open>None\<close> the attribute access \<open>puppet.name\<close> raises.
\<close>

fun mention_loop ::
  "(uuid option \<Rightarrow> puppet option) \<Rightarrow> pystr \<Rightarrow> mention list \<Rightarrow>
   int \<times> pystr list \<times> pystr list \<Rightarrow> error + int \<times> pystr list \<times> pystr list" where
  "mention_loop get_by_address surrogated_text [] st = Inr st"
| "mention_loop get_by_address surrogated_text (m # rest) (last_offset, text_chunks, html_chunks) =
     (let before = pyslice surrogated_text last_offset (start m);
          last_offset' = start m + length_m m;
          text_chunks1 = text_chunks @ [before];
          html_chunks1 = html_chunks @ [html_escape before]
      in case get_by_address (uuid m) of
           None \<Rightarrow> Inl AttributeError
         | Some p \<Rightarrow>
             (case add_surrogate (name_or_mxid p) of
                Inl e \<Rightarrow> Inl e
              | Inr name \<Rightarrow>
                  mention_loop get_by_address surrogated_text rest
                    (last_offset', text_chunks1 @ [name], html_chunks1 @ [anchor p name])))"

definition signal_to_matrix ::
  "(uuid option \<Rightarrow> puppet option) \<Rightarrow> message_data \<Rightarrow> error + content" where
  "signal_to_matrix get_by_address message =
     (let content0 = \<lparr>msgtype = TEXT, body = message_body message, format = None,
                      formatted_body = None\<rparr>
      in case add_surrogate (message_body message) of
           Inl e \<Rightarrow> Inl e
         | Inr surrogated_text \<Rightarrow>
             if message_mentions message \<noteq> [] then
               (case mention_loop get_by_address surrogated_text (message_mentions message)
                       (0, [], []) of
                  Inl e \<Rightarrow> Inl e
                | Inr (last_offset, text_chunks, html_chunks) \<Rightarrow>
                    (let tail = pyslice_from surrogated_text last_offset;
                         text_chunks' = text_chunks @ [tail];
                         html_chunks' = html_chunks @ [html_escape tail]
                     in case del_surrogate (concat text_chunks') of
                          Inl e \<Rightarrow> Inl e
                        | Inr b \<Rightarrow>
                            (case del_surrogate (concat html_chunks') of
                               Inl e \<Rightarrow> Inl e
                             | Inr fb \<Rightarrow>
                                 Inr (content0\<lparr>body := b, format := Some HTML,
                                               formatted_body := Some fb\<rparr>))))
             else Inr content0)"

section \<open>The entity string operations of the base class\<close>

text \<open>
  \<open>SignalFormatString\<close> inherits \<open>_offset_entities\<close>, \<open>trim\<close>, \<open>split\<close>, \<open>prepend\<close> and
  \<open>join\<close> from the base class \<open>EntityString\<close> of the mautrix library, whose source is
  not part of the repository's files.  They are modelled from section 4.2 of the spec.
\<close>

definition shift_entity :: "int \<Rightarrow> mention \<Rightarrow> mention" where
  "shift_entity n e = e\<lparr>start := start e + n\<rparr>"

text \<open>
  Modelled from the spec: \<open>_offset_entities\<close> is missing.  ``\<open>wrap(prefix, suffix)\<close>: ...
  every entity's offset increases by \<open>length(prefix)\<close>.''
\<close>

definition offset_entities :: "int \<Rightarrow> fstring \<Rightarrow> fstring" where
  "offset_entities n s = s\<lparr>entities := map (shift_entity n) (entities s)\<rparr>"

text \<open>The characters \<open>str.strip\<close> removes: those for which \<open>str.isspace\<close> holds.\<close>

definition is_space :: "codepoint \<Rightarrow> bool" where
  "is_space c =
     ((0x09 \<le> c \<and> c \<le> 0x0D) \<or> (0x1C \<le> c \<and> c \<le> 0x20) \<or> c = 0x85 \<or> c = 0xA0 \<or>
      c = 0x1680 \<or> (0x2000 \<le> c \<and> c \<le> 0x200A) \<or> c = 0x2028 \<or> c = 0x2029 \<or>
      c = 0x202F \<or> c = 0x205F \<or> c = 0x3000)"

definition strip :: "pystr \<Rightarrow> pystr" where
  "strip s = rev (dropWhile is_space (rev (dropWhile is_space s)))"

text \<open>
  Modelled from the spec: \<open>trim\<close> is missing.  ``removes leading/trailing whitespace
  from \<open>text\<close>; entities fully inside the trimmed remainder keep correct relative offsets
  (shift by the count of removed leading characters); entities fully inside removed
  regions are dropped.''
\<close>

definition trim :: "fstring \<Rightarrow> fstring" where
  "trim s =
     (let d = int (length (takeWhile is_space (text_fs s)));
          t = strip (text_fs s);
          removed = (\<lambda>e. start e + length_m e \<le> d \<or> d + int (length t) \<le> start e)
      in \<lparr>text_fs = t,
          entities = map (shift_entity (- d)) (filter (\<lambda>e. \<not> removed e) (entities s))\<rparr>)"

text \<open>\<open>str.split(sep)\<close> for a non-empty separator.\<close>

function split_str :: "pystr \<Rightarrow> pystr \<Rightarrow> pystr list" where
  "split_str sep [] = [[]]"
| "split_str sep (x # xs) =
     (if sep \<noteq> [] \<and> take (length sep) (x # xs) = sep then
        [] # split_str sep (drop (length sep) (x # xs))
      else (case split_str sep xs of [] \<Rightarrow> [[x]] | p # ps \<Rightarrow> (x # p) # ps))"
  by pat_completeness auto
termination
  by (relation "measure (\<lambda>(sep, s). length s)") auto

text \<open>
  Modelled from the spec: \<open>split\<close> is missing.  ``partitions \<open>text\<close> on exact separator
  matches, reassigning each entity to the segment containing its (now re-based) offset
  range; an entity spanning a separator boundary ... clips it to the segment where it
  starts''.  \<open>off\<close> is the position of the segment in the text that is split.
\<close>

definition starts_in :: "int \<Rightarrow> nat \<Rightarrow> mention \<Rightarrow> bool" where
  "starts_in off n e = (off \<le> start e \<and> start e < off + int n)"

definition rebase_clip :: "int \<Rightarrow> nat \<Rightarrow> mention \<Rightarrow> mention" where
  "rebase_clip off n e =
     e\<lparr>start := start e - off, length_m := min (length_m e) (off + int n - start e)\<rparr>"

fun split_parts :: "nat \<Rightarrow> mention list \<Rightarrow> int \<Rightarrow> pystr list \<Rightarrow> fstring list" where
  "split_parts seplen es off [] = []"
| "split_parts seplen es off (p # ps) =
     \<lparr>text_fs = p, entities = map (rebase_clip off (length p)) (filter (starts_in off (length p)) es)\<rparr>
       # split_parts seplen es (off + int (length p) + int seplen) ps"

definition split :: "pystr \<Rightarrow> fstring \<Rightarrow> fstring list" where
  "split sep s = split_parts (length sep) (entities s) 0 (split_str sep (text_fs s))"

text \<open>
  Modelled from the spec: \<open>prepend\<close> is missing.  The blockquote rule ``prefix each
  resulting line with \<open>"> "\<close>'' is a \<open>wrap\<close> with an empty suffix: the text gets the
  prefix and every entity's offset increases by its length.
\<close>

definition prepend :: "pystr \<Rightarrow> fstring \<Rightarrow> fstring" where
  "prepend pre s = (offset_entities (int (length pre)) s)\<lparr>text_fs := pre @ text_fs s\<rparr>"

text \<open>
  Modelled from the spec: \<open>join\<close> is missing.  ``inverse of split; recomputes offsets by
  adding the cumulative length of all preceding parts plus separators.''  \<open>off\<close> is that
  cumulative length.
\<close>

fun join_from :: "pystr \<Rightarrow> int \<Rightarrow> fstring list \<Rightarrow> fstring" where
  "join_from sep off [] = \<lparr>text_fs = [], entities = []\<rparr>"
| "join_from sep off [p] = offset_entities off p"
| "join_from sep off (p # q # ps) =
     (let r = join_from sep (off + int (length (text_fs p)) + int (length sep)) (q # ps)
      in \<lparr>text_fs = text_fs p @ sep @ text_fs r,
          entities = map (shift_entity off) (entities p) @ entities r\<rparr>)"

definition join :: "fstring list \<Rightarrow> pystr \<Rightarrow> fstring" where
  "join items sep = join_from sep 0 items"

section \<open>\<open>SignalFormatString.format\<close>\<close>

text \<open>
  The last three lines of \<open>format\<close>, which every branch that only sets \<open>prefix\<close> and
  \<open>suffix\<close> reaches:
  \<^verbatim>\<open>self._offset_entities(len(prefix))
  self.text = f"{prefix}{self.text}{suffix}"
  return self\<close>
\<close>

definition apply_affixes :: "pystr \<Rightarrow> pystr \<Rightarrow> fstring \<Rightarrow> fstring" where
  "apply_affixes prefix suffix self =
     (offset_entities (int (length prefix)) self)\<lparr>text_fs := prefix @ text_fs self @ suffix\<rparr>"

text \<open>
  \<open>format(entity_type, **kwargs)\<close>.  Reading a key that was not passed raises \<open>KeyError\<close>.
  \<open>"#" * n\<close> is empty for a negative \<open>n\<close>.  The code points written out are the newline
  \<open>0x0A\<close>, the number sign \<open>0x23\<close> and the backtick \<open>0x60\<close>.
\<close>

definition format_fs :: "EntityType \<Rightarrow> kwargs \<Rightarrow> fstring \<Rightarrow> error + fstring" where
  "format_fs entity_type kw self =
     (case entity_type of
        USER_MENTION \<Rightarrow>
          (case kw_uuid kw of
             None \<Rightarrow> Inl KeyError
           | Some u \<Rightarrow>
               Inr (self\<lparr>entities := entities self @
                      [\<lparr>uuid = u, start = 0, length_m = int (length (text_fs self))\<rparr>]\<rparr>))
      | BOLD \<Rightarrow> Inr (apply_affixes (ascii ''**'') (ascii ''**'') self)
      | ITALIC \<Rightarrow> Inr (apply_affixes (ascii ''_'') (ascii ''_'') self)
      | STRIKETHROUGH \<Rightarrow> Inr (apply_affixes (ascii ''~~'') (ascii ''~~'') self)
      | URL \<Rightarrow>
          (case kw_url kw of
             None \<Rightarrow> Inl KeyError
           | Some url \<Rightarrow>
               if url \<noteq> text_fs self
               then Inr (apply_affixes [] (ascii '' ('' @ url @ ascii '')'') self)
               else Inr (apply_affixes [] [] self))
      | PREFORMATTED \<Rightarrow>
          (case kw_language kw of
             None \<Rightarrow> Inl KeyError
           | Some language \<Rightarrow>
               Inr (apply_affixes ([0x60, 0x60, 0x60] @ language @ [0x0A])
                      ([0x0A, 0x60, 0x60, 0x60]) self))
      | INLINE_CODE \<Rightarrow> Inr (apply_affixes [0x60] [0x60] self)
      | BLOCKQUOTE \<Rightarrow>
          (let children = split [0x0A] (trim self);
               children' = map (prepend (ascii ''> '')) children
           in Inr (join children' [0x0A]))
      | HEADER \<Rightarrow>
          (case kw_size kw of
             None \<Rightarrow> Inl KeyError
           | Some n \<Rightarrow> Inr (apply_affixes (replicate (nat n) 0x23 @ ascii '' '') [] self))
      | OTHER_ENTITY \<Rightarrow> Inr self)"

text \<open>Nested markup: the innermost kind is applied first.\<close>

fun format_all :: "(EntityType \<times> kwargs) list \<Rightarrow> fstring \<Rightarrow> error + fstring" where
  "format_all [] s = Inr s"
| "format_all ((k, kw) # ops) s =
     (case format_fs k kw s of Inl e \<Rightarrow> Inl e | Inr s' \<Rightarrow> format_all ops s')"

section \<open>The markup rules of the spec for the wrapping kinds\<close>

text \<open>
  The decision table of section 4.2 of the spec, for the kinds that wrap the text in a
  prefix and a suffix: bold, italic, strikethrough, inline code, preformatted (with its
  language) and header (with its size).
\<close>

definition wrap_prefix :: "EntityType \<Rightarrow> kwargs \<Rightarrow> pystr" where
  "wrap_prefix k kw =
     (if k = BOLD then ascii ''**''
      else if k = ITALIC then ascii ''_''
      else if k = STRIKETHROUGH then ascii ''~~''
      else if k = INLINE_CODE then [0x60]
      else if k = PREFORMATTED then
        [0x60, 0x60, 0x60] @ (case kw_language kw of None \<Rightarrow> [] | Some l \<Rightarrow> l) @ [0x0A]
      else if k = HEADER then
        replicate (case kw_size kw of None \<Rightarrow> 0 | Some n \<Rightarrow> nat n) 0x23 @ ascii '' ''
      else [])"

definition wrap_suffix :: "EntityType \<Rightarrow> kwargs \<Rightarrow> pystr" where
  "wrap_suffix k kw =
     (if k = BOLD then ascii ''**''
      else if k = ITALIC then ascii ''_''
      else if k = STRIKETHROUGH then ascii ''~~''
      else if k = INLINE_CODE then [0x60]
      else if k = PREFORMATTED then [0x0A, 0x60, 0x60, 0x60]
      else [])"

definition is_wrap :: "EntityType \<times> kwargs \<Rightarrow> bool" where
  "is_wrap op =
     (case op of (k, kw) \<Rightarrow>
        k = BOLD \<or> k = ITALIC \<or> k = STRIKETHROUGH \<or> k = INLINE_CODE \<or>
        (k = PREFORMATTED \<and> kw_language kw \<noteq> None) \<or> (k = HEADER \<and> kw_size kw \<noteq> None))"

definition prefix_total :: "(EntityType \<times> kwargs) list \<Rightarrow> int" where
  "prefix_total ops = sum_list (map (\<lambda>(k, kw). int (length (wrap_prefix k kw))) ops)"

section \<open>Outbound conversion: \<open>user_pill_to_fstring\<close> and \<open>matrix_to_signal\<close>\<close>

text \<open>
  \<open>User.get_by_mxid\<close> and \<open>Puppet.get_by_mxid\<close> (both called with \<open>create=False\<close>) are the
  lookup collaborators, parameters here.
\<close>

definition user_pill_to_fstring ::
  "(user_id \<Rightarrow> user option) \<Rightarrow> (user_id \<Rightarrow> puppet option) \<Rightarrow> fstring \<Rightarrow> user_id \<Rightarrow>
   error + fstring" where
  "user_pill_to_fstring get_user_by_mxid get_puppet_by_mxid msg uid =
     (case (case get_user_by_mxid uid of
              None \<Rightarrow> None
            | Some usr \<Rightarrow> (case user_uuid usr of None \<Rightarrow> None | Some u \<Rightarrow> Some (Some u))) of
        Some found \<Rightarrow> format_fs USER_MENTION (no_kwargs\<lparr>kw_uuid := Some found\<rparr>) msg
      | None \<Rightarrow>
          (case get_puppet_by_mxid uid of
             Some p \<Rightarrow> format_fs USER_MENTION (no_kwargs\<lparr>kw_uuid := Some (puppet_uuid p)\<rparr>) msg
           | None \<Rightarrow> Inr msg))"

text \<open>Truth value of \<open>content.formatted_body\<close>: neither \<open>None\<close> nor empty.\<close>

definition present :: "pystr option \<Rightarrow> bool" where
  "present fb = (case fb of None \<Rightarrow> False | Some s \<Rightarrow> s \<noteq> [])"

definition me_prefix :: pystr where
  "me_prefix = ascii ''/me ''"

text \<open>The two assignments under \<open>if content.msgtype == MessageType.EMOTE\<close>.\<close>

definition emote_adjust :: "content \<Rightarrow> content" where
  "emote_adjust c =
     (if msgtype c = EMOTE then
        (let c1 = c\<lparr>body := me_prefix @ body c\<rparr>
         in case formatted_body c1 of
              None \<Rightarrow> c1
            | Some fb \<Rightarrow> if fb \<noteq> [] then c1\<lparr>formatted_body := Some (me_prefix @ fb)\<rparr> else c1)
      else c)"

text \<open>
  The branch for an HTML formatted body:
  \<^verbatim>\<open>parsed = await MatrixParser().parse(add_surrogate(content.formatted_body))
  text, mentions = del_surrogate(parsed.text), parsed.entities\<close>
\<close>

definition parsed_result :: "(pystr \<Rightarrow> error + fstring) \<Rightarrow> pystr \<Rightarrow> error + pystr \<times> mention list" where
  "parsed_result parse fb =
     (case add_surrogate fb of
        Inl e \<Rightarrow> Inl e
      | Inr surrogated \<Rightarrow>
          (case parse surrogated of
             Inl e \<Rightarrow> Inl e
           | Inr parsed \<Rightarrow>
               (case del_surrogate (text_fs parsed) of
                  Inl e \<Rightarrow> Inl e
                | Inr t \<Rightarrow> Inr (t, entities parsed))))"

text \<open>
  \<open>matrix_to_signal\<close> changes the content object it is given and returns a pair, or
  raises: the model returns the content object as the call leaves it, together with the
  result.  \<open>MatrixParser().parse\<close>, the markup parser of the mautrix library, is a
  parameter.
\<close>

definition matrix_to_signal ::
  "(pystr \<Rightarrow> error + fstring) \<Rightarrow> content \<Rightarrow> content \<times> (error + pystr \<times> mention list)" where
  "matrix_to_signal parse content0 =
     (let c = emote_adjust content0
      in (c,
          case formatted_body c of
            None \<Rightarrow> Inr (body c, [])
          | Some fb \<Rightarrow>
              if format c = Some HTML \<and> fb \<noteq> [] then parsed_result parse fb
              else Inr (body c, [])))"

section \<open>The substitution of mentions, in the words of the spec\<close>

text \<open>What \<open>html.escape\<close> does to one character.\<close>

definition escape_char :: "codepoint \<Rightarrow> pystr" where
  "escape_char c =
     (if c = 0x26 then ascii ''&amp;''
      else if c = 0x3C then ascii ''&lt;''
      else if c = 0x3E then ascii ''&gt;''
      else if c = 0x22 then ascii ''&quot;''
      else if c = 0x27 then ascii ''&#x27;''
      else [c])"

text \<open>
  The mention whose span \<open>[start, start + length)\<close> holds position \<open>i\<close> of the text in
  UTF-16 units, if any.
\<close>

definition covering :: "mention list \<Rightarrow> int \<Rightarrow> mention option" where
  "covering ms i = find (\<lambda>m. start m \<le> i \<and> i < start m + length_m m) ms"

text \<open>
  What position \<open>i\<close> of the text \<open>t\<close> contributes to the output: outside every span the
  character itself, rendered by \<open>lit\<close>; at the first position of a span the replacement
  \<open>men\<close> of its mention; nothing at the other positions of a span.
\<close>

definition piece ::
  "(codepoint \<Rightarrow> pystr) \<Rightarrow> (mention \<Rightarrow> pystr) \<Rightarrow> mention list \<Rightarrow> pystr \<Rightarrow> nat \<Rightarrow> pystr" where
  "piece lit men ms t i =
     (case covering ms (int i) of
        None \<Rightarrow> lit (t ! i)
      | Some m \<Rightarrow> if int i = start m then men m else [])"

definition substitute ::
  "(codepoint \<Rightarrow> pystr) \<Rightarrow> (mention \<Rightarrow> pystr) \<Rightarrow> pystr \<Rightarrow> mention list \<Rightarrow> pystr" where
  "substitute lit men t ms = concat (map (piece lit men ms t) [0..<length t])"

text \<open>
  The invariant of the spec on a mention list, for a text of \<open>n\<close> units, from position
  \<open>lo\<close> on: \<open>start \<ge> lo\<close>, \<open>length > 0\<close>, the mentions sorted and not overlapping, the last
  one ending within the text.
\<close>

fun wf_mentions :: "int \<Rightarrow> int \<Rightarrow> mention list \<Rightarrow> bool" where
  "wf_mentions lo n [] = (lo \<le> n)"
| "wf_mentions lo n (m # ms) =
     (lo \<le> start m \<and> 0 < length_m m \<and> wf_mentions (start m + length_m m) n ms)"

text \<open>The lookup finds a puppet for the mention; what then replaces its span.\<close>

definition resolves :: "(uuid option \<Rightarrow> puppet option) \<Rightarrow> mention \<Rightarrow> bool" where
  "resolves get_by_address m =
     (case get_by_address (uuid m) of None \<Rightarrow> False | Some p \<Rightarrow> valid_str (name_or_mxid p))"

definition resolved_name :: "(uuid option \<Rightarrow> puppet option) \<Rightarrow> mention \<Rightarrow> pystr" where
  "resolved_name get_by_address m =
     (case get_by_address (uuid m) of None \<Rightarrow> [] | Some p \<Rightarrow> expand (name_or_mxid p))"

definition resolved_anchor :: "(uuid option \<Rightarrow> puppet option) \<Rightarrow> mention \<Rightarrow> pystr" where
  "resolved_anchor get_by_address m =
     (case get_by_address (uuid m) of
        None \<Rightarrow> []
      | Some p \<Rightarrow> anchor p (expand (name_or_mxid p)))"

text \<open>
  Text without surrogate code points (\<open>clean\<close>), and such text within the Basic
  Multilingual Plane (\<open>bmp_text\<close>), which \<open>add_surrogate\<close> leaves as it is.
\<close>

definition clean :: "pystr \<Rightarrow> bool" where
  "clean s = list_all (\<lambda>c. c \<le> 0x10FFFF \<and> \<not> is_surrogate c) s"

definition bmp_text :: "pystr \<Rightarrow> bool" where
  "bmp_text s = list_all (\<lambda>c. c < 0x10000 \<and> \<not> is_surrogate c) s"

definition resolves_bmp :: "(uuid option \<Rightarrow> puppet option) \<Rightarrow> mention \<Rightarrow> bool" where
  "resolves_bmp get_by_address m =
     (case get_by_address (uuid m) of
        None \<Rightarrow> False
      | Some p \<Rightarrow> bmp_text (name_or_mxid p) \<and> clean (puppet_mxid p))"

section \<open>The blockquote rule, in the words of the spec\<close>

text \<open>The text with \<open>"> "\<close> inserted at the start and after every newline (\<open>0x0A\<close>).\<close>

definition quote_text :: "pystr \<Rightarrow> pystr" where
  "quote_text t =
     ascii ''> '' @ concat (map (\<lambda>c. if c = 0x0A then 0x0A # ascii ''> '' else [c]) t)"

text \<open>
  The position at which line \<open>k\<close> (counted from \<open>0\<close>) of the lines \<open>ls\<close> starts in the text
  they were split from: the lengths of the lines before it, and one newline for each.
\<close>

definition line_start :: "pystr list \<Rightarrow> nat \<Rightarrow> int" where
  "line_start ls k = int (sum_list (map length (take k ls))) + int k"

text \<open>
  An entity that starts in line \<open>k\<close>, after quoting: \<open>k + 1\<close> markers of two characters
  were inserted before it, and it is clipped to the end of its line.
\<close>

definition quote_entity :: "pystr list \<Rightarrow> nat \<Rightarrow> mention \<Rightarrow> mention" where
  "quote_entity ls k e =
     e\<lparr>start := start e + 2 * (int k + 1),
       length_m := min (length_m e) (line_start ls k + int (length (ls ! k)) - start e)\<rparr>"

definition quote_entities :: "pystr list \<Rightarrow> mention list \<Rightarrow> mention list" where
  "quote_entities ls es =
     concat (map (\<lambda>k. map (quote_entity ls k)
                          (filter (starts_in (line_start ls k) (length (ls ! k))) es))
                 [0..<length ls])"

section \<open>Example data\<close>

definition quoted_message :: fstring where
  "quoted_message =
     \<lparr>text_fs = ascii '' hi'' @ [0x0A] @ ascii ''Al '',
      entities = [\<lparr>uuid = Some 11, start = 4, length_m = 2\<rparr>]\<rparr>"

definition puppets :: "uuid option \<Rightarrow> puppet option" where
  "puppets u =
     (if u = Some 11 then
        Some \<lparr>puppet_uuid = Some 11, puppet_name = Some (ascii ''Alice''), puppet_mxid = ascii ''@a:x''\<rparr>
      else if u = Some 12 then
        Some \<lparr>puppet_uuid = Some 12, puppet_name = None, puppet_mxid = ascii ''@b:x''\<rparr>
      else None)"

definition hi_message :: message_data where
  "hi_message =
     \<lparr>message_body = ascii ''Hi @A & @B'',
      message_mentions = [\<lparr>uuid = Some 11, start = 3, length_m = 2\<rparr>,
                          \<lparr>uuid = Some 12, start = 8, length_m = 2\<rparr>]\<rparr>"

definition clamped_message :: message_data where
  "clamped_message =
     \<lparr>message_body = ascii ''Hi'',
      message_mentions = [\<lparr>uuid = Some 11, start = 0, length_m = 100\<rparr>]\<rparr>"

definition negative_message :: message_data where
  "negative_message =
     \<lparr>message_body = ascii ''Hi'',
      message_mentions = [\<lparr>uuid = Some 11, start = - 1, length_m = 0\<rparr>]\<rparr>"

definition split_pair_message :: message_data where
  "split_pair_message =
     \<lparr>message_body = [0x1F600],
      message_mentions = [\<lparr>uuid = Some 11, start = 0, length_m = 1\<rparr>]\<rparr>"

section \<open>Properties of the offset codec\<close>

lemma map_result_total:
  "(\<And>x. x \<in> set xs \<Longrightarrow> f x = Inr (g x)) \<Longrightarrow> map_result f xs = Inr (map g xs)"
  by (induction xs) simp_all

lemma high_unit_is_high: "0x10000 \<le> c \<Longrightarrow> c \<le> 0x10FFFF \<Longrightarrow> is_high (high_unit c)"
  unfolding is_high_def high_unit_def by simp

lemma low_unit_is_low: "is_low (low_unit c)"
proof -
  have "(c - 0x10000) mod 0x400 < 0x400" by simp
  then show ?thesis unfolding is_low_def low_unit_def by simp
qed

lemma low_unit_not_high: "\<not> is_high (low_unit c)"
  using low_unit_is_low [of c] unfolding is_low_def is_high_def by simp

lemma high_unit_not_low: "0x10000 \<le> c \<Longrightarrow> c \<le> 0x10FFFF \<Longrightarrow> \<not> is_low (high_unit c)"
  using high_unit_is_high [of c] unfolding is_low_def is_high_def by simp

lemma recombine:
  "0x10000 \<le> c \<Longrightarrow> 0x10000 + (high_unit c - 0xD800) * 0x400 + (low_unit c - 0xDC00) = c"
  unfolding high_unit_def low_unit_def by simp

lemma add_surrogate_char_eq: "add_surrogate_char c = Inr (expand_char (c))" if "c \<le> 0x10FFFF"
  using that
  by (simp add: add_surrogate_char_def expand_char_def encode_utf16le_def utf16_units_def
      struct_unpack_HH_def high_unit_def low_unit_def)

lemma valid_str_Cons [simp]: "valid_str (c # cs) = (c \<le> 0x10FFFF \<and> valid_str cs)"
  by (simp add: valid_str_def)

lemma valid_str_Nil [simp]: "valid_str []"
  by (simp add: valid_str_def)

lemma add_surrogate_total: "valid_str s \<Longrightarrow> add_surrogate s = Inr (expand s)"
proof -
  assume v: "valid_str s"
  have "map_result add_surrogate_char s = Inr (map expand_char s)"
  proof (rule map_result_total)
    fix x assume "x \<in> set s"
    with v have "x \<le> 0x10FFFF" by (simp add: valid_str_def list_all_iff)
    then show "add_surrogate_char x = Inr (expand_char x)" by (rule add_surrogate_char_eq)
  qed
  then show ?thesis by (simp add: add_surrogate_def expand_def)
qed

lemma utf16_units_pass: "utf16_units True c = Inr (expand_char c)"
  by (simp add: utf16_units_def expand_char_def high_unit_def low_unit_def)

lemma encode_utf16_pass: "encode_utf16 True s = Inr (0xFEFF # expand s)"
proof -
  have "map_result (utf16_units True) s = Inr (map expand_char s)"
    by (rule map_result_total) (rule utf16_units_pass)
  then show ?thesis by (simp add: encode_utf16_def expand_def)
qed

lemma del_surrogate_eq: "del_surrogate s = decode_units (expand s)"
  by (simp add: del_surrogate_def encode_utf16_pass decode_utf16_def)

lemma expand_Nil [simp]: "expand [] = []"
  by (simp add: expand_def)

lemma expand_Cons: "expand (c # cs) = expand_char c @ expand cs"
  by (simp add: expand_def)

lemma expand_append: "expand (a @ b) = expand a @ expand b"
  by (simp add: expand_def)

lemma decode_expand:
  "valid_str s \<Longrightarrow> no_surrogates s \<Longrightarrow> decode_units (expand s) = Inr s"
proof (induction s)
  case Nil
  then show ?case by simp
next
  case (Cons c cs)
  then have ih: "decode_units (expand cs) = Inr cs" and ns: "\<not> is_surrogate c" and v: "c \<le> 0x10FFFF"
    by (simp_all add: no_surrogates_def)
  show ?case
  proof (cases "c < 0x10000")
    case True
    with ns ih show ?thesis
      by (simp add: expand_Cons expand_char_def is_surrogate_def)
  next
    case False
    then have a: "0x10000 \<le> c" by simp
    from a v ih show ?thesis
      by (simp add: expand_Cons expand_char_def high_unit_is_high low_unit_is_low recombine)
  qed
qed

lemma expand_char_small: "c < 0x10000 \<Longrightarrow> expand_char c = [c]"
  by (simp add: expand_char_def)

lemma units_small: "valid_str s \<Longrightarrow> list_all (\<lambda>u. u < 0x10000) (expand s)"
proof (induction s)
  case Nil
  then show ?case by simp
next
  case (Cons c cs)
  then have v: "c \<le> 0x10FFFF" and ih: "list_all (\<lambda>u. u < 0x10000) (expand cs)" by simp_all
  have "list_all (\<lambda>u. u < 0x10000) (expand_char c)"
  proof (cases "c < 0x10000")
    case True then show ?thesis by (simp add: expand_char_def)
  next
    case False
    with v have "is_high (high_unit c)" by (simp add: high_unit_is_high)
    moreover have "is_low (low_unit c)" by (rule low_unit_is_low)
    ultimately show ?thesis using False by (simp add: expand_char_def is_high_def is_low_def)
  qed
  with ih show ?case by (simp add: expand_Cons)
qed

lemma expand_small_id: "list_all (\<lambda>u. u < 0x10000) t \<Longrightarrow> expand t = t"
  by (induction t) (simp_all add: expand_Cons expand_char_small)

lemma expand_idem: "valid_str s \<Longrightarrow> expand (expand s) = expand s"
  by (simp add: units_small expand_small_id)

text \<open>
  Claim C2, as amended.  For every Python string \<open>s\<close>, \<open>add_surrogate\<close> returns \<open>s\<close>
  with every character below \<open>0x10000\<close> unchanged and every code point from \<open>0x10000\<close> on
  replaced by its two UTF-16 surrogate code units; and when \<open>s\<close> contains no surrogate
  code point at all, \<open>del_surrogate\<close> of that result is \<open>s\<close> again.
\<close>

theorem collapse_inverts_expand:
  assumes "valid_str s"
  shows "add_surrogate s = Inr (expand s) \<and>
         (no_surrogates s \<longrightarrow> del_surrogate (expand s) = Inr s)"
  using assms by (simp add: add_surrogate_total del_surrogate_eq expand_idem decode_expand)

theorem collapse_inverts_expand_witness:
  "valid_str [0x48, 0x1F600, 0x69] \<and> no_surrogates [0x48, 0x1F600, 0x69] \<and>
   add_surrogate [0x48, 0x1F600, 0x69] = Inr [0x48, 0xD83D, 0xDE00, 0x69] \<and>
   del_surrogate [0x48, 0xD83D, 0xDE00, 0x69] = Inr [0x48, 0x1F600, 0x69]"
proof -
  have v: "valid_str [0x48, 0x1F600, 0x69]" by simp
  have n: "no_surrogates [0x48, 0x1F600, 0x69]"
    by (simp add: no_surrogates_def is_surrogate_def is_high_def is_low_def)
  have e: "expand [0x48, 0x1F600, 0x69] = [0x48, 0xD83D, 0xDE00, 0x69]"
    by (simp add: expand_def expand_char_def high_unit_def low_unit_def)
  show ?thesis using collapse_inverts_expand [OF v] v n e by simp
qed

text \<open>
  The claim as written admits every string without unpaired surrogates.  A string that
  holds a high and a low surrogate code point side by side has none, \<open>add_surrogate\<close>
  leaves it as it is, and \<open>del_surrogate\<close> merges the two into one code point: the round
  trip does not give the string back.
\<close>

theorem paired_surrogates_counterexample:
  "valid_str [0xD83D, 0xDE00] \<and> \<not> has_lone_surrogate [0xD83D, 0xDE00] \<and>
   add_surrogate [0xD83D, 0xDE00] = Inr [0xD83D, 0xDE00] \<and>
   del_surrogate [0xD83D, 0xDE00] = Inr [0x1F600] \<and>
   [0x1F600] \<noteq> [0xD83D, 0xDE00 :: nat]"
  by (simp add: has_lone_surrogate_def lone_at_def is_high_def is_low_def
      add_surrogate_total del_surrogate_eq expand_def expand_char_def)

lemma expand_char_astral:
  "\<not> c < 0x10000 \<Longrightarrow> expand_char c = [high_unit c, low_unit c]"
  by (simp add: expand_char_def)

lemma astral_not_surrogate: "\<not> c < 0x10000 \<Longrightarrow> \<not> is_high c \<and> \<not> is_low c"
  by (simp add: is_high_def is_low_def)

lemma decode_unpaired:
  "valid_str s \<Longrightarrow> \<not> paired s \<Longrightarrow> decode_units (expand s) = Inl UnicodeDecodeError"
proof (induction s rule: paired.induct)
  case 1
  then show ?case by simp
next
  case (2 c cs)
  show ?case
  proof (cases "is_high c")
    case hc: True
    then have small: "c < 0x10000" by (simp add: is_high_def)
    show ?thesis
    proof (cases cs)
      case Nil
      with hc small show ?thesis by (simp add: expand_Cons expand_char_small)
    next
      case (Cons d ds)
      from "2.prems" Cons have vd: "d \<le> 0x10FFFF" and vds: "valid_str ds" by simp_all
      show ?thesis
      proof (cases "d < 0x10000")
        case dsmall: True
        show ?thesis
        proof (cases "is_low d")
          case ld: True
          with "2.prems" hc Cons have "\<not> paired ds" by simp
          with "2.IH"(1) [OF hc Cons vds] have "decode_units (expand ds) = Inl UnicodeDecodeError" .
          with hc ld small dsmall Cons show ?thesis
            by (simp add: expand_Cons expand_char_small)
        next
          case False
          with hc small dsmall Cons show ?thesis
            by (simp add: expand_Cons expand_char_small)
        qed
      next
        case dbig: False
        with vd have "\<not> is_low (high_unit d)" by (simp add: high_unit_not_low)
        with hc small dbig Cons show ?thesis
          by (simp add: expand_Cons expand_char_small expand_char_astral)
      qed
    qed
  next
    case nh: False
    show ?thesis
    proof (cases "is_low c")
      case lc: True
      then have "c < 0x10000" by (simp add: is_low_def)
      with nh lc show ?thesis by (simp add: expand_Cons expand_char_small)
    next
      case nl: False
      from "2.prems" have vc: "c \<le> 0x10FFFF" and vcs: "valid_str cs" by simp_all
      from "2.prems" nh nl have "\<not> paired cs" by simp
      with "2.IH"(2) [OF nh nl vcs] have ih: "decode_units (expand cs) = Inl UnicodeDecodeError" .
      show ?thesis
      proof (cases "c < 0x10000")
        case True
        with nh nl ih show ?thesis by (simp add: expand_Cons expand_char_small)
      next
        case False
        with vc ih show ?thesis
          by (simp add: expand_Cons expand_char_astral high_unit_is_high low_unit_is_low)
      qed
    qed
  qed
qed

lemma paired_no_lone: "paired s \<Longrightarrow> i < length s \<Longrightarrow> \<not> lone_at s i"
proof (induction s arbitrary: i rule: paired.induct)
  case 1
  then show ?case by simp
next
  case (2 c cs)
  show ?case
  proof (cases "is_high c")
    case hc: True
    with "2.prems" obtain d ds where cs: "cs = d # ds" and ld: "is_low d" and pds: "paired ds"
      by (cases cs) auto
    from hc have nlc: "\<not> is_low c" by (simp add: is_high_def is_low_def)
    from ld have nhd: "\<not> is_high d" by (simp add: is_high_def is_low_def)
    consider "i = 0" | "i = 1" | j where "i = Suc (Suc j)" "j < length ds"
      using "2.prems"(2) cs by (cases i; cases "i - 1") auto
    then show ?thesis
    proof cases
      case 1
      with hc ld nlc cs show ?thesis by (simp add: lone_at_def)
    next
      case 2
      with hc ld nhd cs show ?thesis by (simp add: lone_at_def)
    next
      case 3
      from "2.IH"(1) [OF hc cs pds 3(2)] have nl: "\<not> lone_at ds j" .
      show ?thesis
      proof (cases j)
        case 0
        with nl 3 cs nhd show ?thesis by (auto simp: lone_at_def)
      next
        case (Suc k)
        with nl 3 cs show ?thesis by (auto simp: lone_at_def)
      qed
    qed
  next
    case nh: False
    with "2.prems" have nl: "\<not> is_low c" and pcs: "paired cs" by (auto split: if_splits)
    show ?thesis
    proof (cases i)
      case 0
      with nh nl show ?thesis by (simp add: lone_at_def)
    next
      case (Suc j)
      with "2.prems"(2) have jl: "j < length cs" by simp
      from "2.IH"(2) [OF nh nl pcs jl] have nlj: "\<not> lone_at cs j" .
      show ?thesis
      proof (cases j)
        case 0
        with nlj Suc nh show ?thesis by (auto simp: lone_at_def)
      next
        case (Suc k)
        with nlj \<open>i = Suc j\<close> show ?thesis by (auto simp: lone_at_def)
      qed
    qed
  qed
qed

lemma lone_not_paired: "has_lone_surrogate s \<Longrightarrow> \<not> paired s"
  using paired_no_lone by (auto simp: has_lone_surrogate_def list_ex_iff)

text \<open>
  Claim C5.  Whenever the text given to \<open>del_surrogate\<close> contains a surrogate that cannot
  be paired (a high surrogate not directly followed by a low one, or a low surrogate not
  directly preceded by a high one), \<open>del_surrogate\<close> raises \<open>UnicodeDecodeError\<close>: the
  unit is neither dropped nor passed through.
\<close>

theorem lone_surrogate_collapse_fails:
  assumes "valid_str s" and "has_lone_surrogate s"
  shows "del_surrogate s = Inl UnicodeDecodeError"
  using assms by (simp add: del_surrogate_eq decode_unpaired lone_not_paired)

theorem lone_surrogate_collapse_fails_witness:
  "valid_str [0x61, 0xD83D, 0x62] \<and> has_lone_surrogate [0x61, 0xD83D, 0x62] \<and>
   del_surrogate [0x61, 0xD83D, 0x62] = Inl UnicodeDecodeError"
proof -
  have v: "valid_str [0x61, 0xD83D, 0x62]" by simp
  have l: "has_lone_surrogate [0x61, 0xD83D, 0x62]"
    by (simp add: has_lone_surrogate_def lone_at_def is_high_def is_low_def upt_rec)
  show ?thesis using lone_surrogate_collapse_fails [OF v l] v l by simp
qed

lemma add_surrogate_defined: "\<exists>t. add_surrogate s = Inr t"
proof -
  have "map_result add_surrogate_char s =
          Inr (map (\<lambda>c. if 0x10000 \<le> c \<and> c \<le> 0x10FFFF then [high_unit c, low_unit c] else [c]) s)"
    by (rule map_result_total)
       (simp add: add_surrogate_char_def encode_utf16le_def utf16_units_def
          struct_unpack_HH_def high_unit_def low_unit_def)
  then show ?thesis by (simp add: add_surrogate_def)
qed

section \<open>Properties of the two conversions\<close>

text \<open>
  Claim C1.  For every body, \<open>signal_to_matrix\<close> of a message without mentions returns
  the body unchanged with no format and no formatted body, and \<open>matrix_to_signal\<close> of
  that content returns the body and an empty mention list, whatever the lookup and the
  parser are.  More generally \<open>matrix_to_signal\<close> passes the body of any content that is
  not an emote and has no HTML formatted body through with an empty mention list.
\<close>

theorem plain_text_round_trip:
  "signal_to_matrix get_by_address \<lparr>message_body = b, message_mentions = []\<rparr>
     = Inr \<lparr>msgtype = TEXT, body = b, format = None, formatted_body = None\<rparr> \<and>
   matrix_to_signal parse \<lparr>msgtype = TEXT, body = b, format = None, formatted_body = None\<rparr>
     = (\<lparr>msgtype = TEXT, body = b, format = None, formatted_body = None\<rparr>, Inr (b, [])) \<and>
   (msgtype c \<noteq> EMOTE \<and> \<not> (format c = Some HTML \<and> present (formatted_body c))
      \<longrightarrow> matrix_to_signal parse c = (c, Inr (body c, [])))"
proof -
  obtain t where "add_surrogate b = Inr t" using add_surrogate_defined by blast
  then have 1: "signal_to_matrix get_by_address \<lparr>message_body = b, message_mentions = []\<rparr>
     = Inr \<lparr>msgtype = TEXT, body = b, format = None, formatted_body = None\<rparr>"
    by (simp add: signal_to_matrix_def)
  have 2: "matrix_to_signal parse \<lparr>msgtype = TEXT, body = b, format = None, formatted_body = None\<rparr>
     = (\<lparr>msgtype = TEXT, body = b, format = None, formatted_body = None\<rparr>, Inr (b, []))"
    by (simp add: matrix_to_signal_def emote_adjust_def)
  have 3: "msgtype c \<noteq> EMOTE \<and> \<not> (format c = Some HTML \<and> present (formatted_body c))
      \<longrightarrow> matrix_to_signal parse c = (c, Inr (body c, []))"
    by (auto simp: matrix_to_signal_def emote_adjust_def present_def split: option.splits)
  from 1 2 3 show ?thesis by blast
qed

theorem plain_text_round_trip_witness:
  "matrix_to_signal (\<lambda>s. Inl KeyError)
     \<lparr>msgtype = NOTICE, body = [0x68, 0x69], format = Some HTML, formatted_body = Some []\<rparr>
   = (\<lparr>msgtype = NOTICE, body = [0x68, 0x69], format = Some HTML, formatted_body = Some []\<rparr>,
      Inr ([0x68, 0x69], []))"
  using plain_text_round_trip [of "(\<lambda>u. None)" "[]" "(\<lambda>s. Inl KeyError)"
      "\<lparr>msgtype = NOTICE, body = [0x68, 0x69], format = Some HTML, formatted_body = Some []\<rparr>"]
  by (simp add: present_def)

lemma me_prefix_eq: "me_prefix = [0x2F, 0x6D, 0x65, 0x20]"
  by (simp add: me_prefix_def ascii_def)

text \<open>
  Claim C8.  For an emote, \<open>matrix_to_signal\<close> puts the marker \<open>"/me "\<close> in front of
  the body, and in front of the formatted body when there is one (neither \<open>None\<close> nor
  empty); the markup parser is given the formatted body with the marker already in
  front.  A content of any other message type gets no marker.
\<close>

theorem emote_prefixing:
  "me_prefix = [0x2F, 0x6D, 0x65, 0x20] \<and>
   (msgtype c = EMOTE \<and> formatted_body c = Some fb \<and> fb \<noteq> [] \<and> format c = Some HTML \<longrightarrow>
      matrix_to_signal parse c =
        (c\<lparr>body := me_prefix @ body c, formatted_body := Some (me_prefix @ fb)\<rparr>,
         parsed_result parse (me_prefix @ fb))) \<and>
   (msgtype c = EMOTE \<and> formatted_body c = Some fb \<and> fb \<noteq> [] \<and> format c \<noteq> Some HTML \<longrightarrow>
      matrix_to_signal parse c =
        (c\<lparr>body := me_prefix @ body c, formatted_body := Some (me_prefix @ fb)\<rparr>,
         Inr (me_prefix @ body c, []))) \<and>
   (msgtype c = EMOTE \<and> \<not> present (formatted_body c) \<longrightarrow>
      matrix_to_signal parse c =
        (c\<lparr>body := me_prefix @ body c\<rparr>, Inr (me_prefix @ body c, []))) \<and>
   (msgtype c \<noteq> EMOTE \<longrightarrow>
      matrix_to_signal parse c =
        (c, case formatted_body c of
              None \<Rightarrow> Inr (body c, [])
            | Some fb' \<Rightarrow> if format c = Some HTML \<and> fb' \<noteq> [] then parsed_result parse fb'
                          else Inr (body c, [])))"
proof -
  have m: "me_prefix \<noteq> []" by (simp add: me_prefix_eq)
  have 1: "msgtype c = EMOTE \<and> formatted_body c = Some fb \<and> fb \<noteq> [] \<and> format c = Some HTML \<longrightarrow>
      matrix_to_signal parse c =
        (c\<lparr>body := me_prefix @ body c, formatted_body := Some (me_prefix @ fb)\<rparr>,
         parsed_result parse (me_prefix @ fb))"
    using m by (simp add: matrix_to_signal_def emote_adjust_def parsed_result_def)
  have 2: "msgtype c = EMOTE \<and> formatted_body c = Some fb \<and> fb \<noteq> [] \<and> format c \<noteq> Some HTML \<longrightarrow>
      matrix_to_signal parse c =
        (c\<lparr>body := me_prefix @ body c, formatted_body := Some (me_prefix @ fb)\<rparr>,
         Inr (me_prefix @ body c, []))"
    by (simp add: matrix_to_signal_def emote_adjust_def)
  have 3: "msgtype c = EMOTE \<and> \<not> present (formatted_body c) \<longrightarrow>
      matrix_to_signal parse c =
        (c\<lparr>body := me_prefix @ body c\<rparr>, Inr (me_prefix @ body c, []))"
    by (auto simp: matrix_to_signal_def emote_adjust_def present_def split: option.splits)
  have 4: "msgtype c \<noteq> EMOTE \<longrightarrow>
      matrix_to_signal parse c =
        (c, case formatted_body c of
              None \<Rightarrow> Inr (body c, [])
            | Some fb' \<Rightarrow> if format c = Some HTML \<and> fb' \<noteq> [] then parsed_result parse fb'
                          else Inr (body c, []))"
    by (simp add: matrix_to_signal_def emote_adjust_def parsed_result_def split: option.splits)
  from me_prefix_eq 1 2 3 4 show ?thesis by blast
qed

theorem emote_prefixing_witness:
  "matrix_to_signal (\<lambda>s. Inr \<lparr>text_fs = s, entities = []\<rparr>)
     \<lparr>msgtype = EMOTE, body = ascii ''waves'', format = Some HTML,
      formatted_body = Some (ascii ''<b>waves</b>'')\<rparr>
   = (\<lparr>msgtype = EMOTE, body = ascii ''/me waves'', format = Some HTML,
       formatted_body = Some (ascii ''/me <b>waves</b>'')\<rparr>,
      Inr (ascii ''/me <b>waves</b>'', []))"
proof -
  have v: "valid_str (ascii ''/me <b>waves</b>'')" by (simp add: ascii_def)
  have e: "expand (ascii ''/me <b>waves</b>'') = ascii ''/me <b>waves</b>''"
    by (simp add: ascii_def expand_def expand_char_def)
  have n: "no_surrogates (ascii ''/me <b>waves</b>'')"
    by (simp add: ascii_def no_surrogates_def is_surrogate_def is_high_def is_low_def)
  have p: "parsed_result (\<lambda>s. Inr \<lparr>text_fs = s, entities = []\<rparr>) (ascii ''/me <b>waves</b>'')
           = Inr (ascii ''/me <b>waves</b>'', [])"
  proof -
    have d: "del_surrogate (ascii ''/me <b>waves</b>'') = Inr (ascii ''/me <b>waves</b>'')"
      using decode_expand [OF v n] by (simp add: del_surrogate_eq)
    show ?thesis using v e d by (simp add: parsed_result_def add_surrogate_total)
  qed
  have a: "me_prefix @ ascii ''<b>waves</b>'' = ascii ''/me <b>waves</b>''"
          "me_prefix @ ascii ''waves'' = ascii ''/me waves''"
    by (simp_all add: me_prefix_def ascii_def)
  show ?thesis
    using emote_prefixing [of "\<lparr>msgtype = EMOTE, body = ascii ''waves'', format = Some HTML,
      formatted_body = Some (ascii ''<b>waves</b>'')\<rparr>" "ascii ''<b>waves</b>''"
      "(\<lambda>s. Inr \<lparr>text_fs = s, entities = []\<rparr>)"] p a
    by (simp add: ascii_def me_prefix_eq present_def)
qed

text \<open>
  Claim C10.  \<open>matrix_to_signal\<close> changes the content object it is given: after the call
  on an emote (also when the call raises), its body is \<open>"/me "\<close> plus the former body,
  its formatted body likewise when there is one, and the object is not what it was.
\<close>

theorem emote_mutates_input:
  assumes "msgtype c = EMOTE"
  shows "body (fst (matrix_to_signal parse c)) = me_prefix @ body c \<and>
         (formatted_body c = Some fb \<and> fb \<noteq> [] \<longrightarrow>
            formatted_body (fst (matrix_to_signal parse c)) = Some (me_prefix @ fb)) \<and>
         fst (matrix_to_signal parse c) \<noteq> c"
proof -
  have b: "body (fst (matrix_to_signal parse c)) = me_prefix @ body c"
    using assms by (simp add: matrix_to_signal_def emote_adjust_def Let_def split: option.splits)
  have f: "formatted_body c = Some fb \<and> fb \<noteq> [] \<longrightarrow>
            formatted_body (fst (matrix_to_signal parse c)) = Some (me_prefix @ fb)"
    using assms by (simp add: matrix_to_signal_def emote_adjust_def Let_def)
  have "length (me_prefix @ body c) \<noteq> length (body c)" by (simp add: me_prefix_eq)
  then have "me_prefix @ body c \<noteq> body c" by metis
  with b have "fst (matrix_to_signal parse c) \<noteq> c" by metis
  with b f show ?thesis by blast
qed

theorem emote_mutates_input_witness:
  "body (fst (matrix_to_signal (\<lambda>s. Inl KeyError)
      \<lparr>msgtype = EMOTE, body = ascii ''waves'', format = None, formatted_body = None\<rparr>))
   = ascii ''/me waves''"
proof -
  have t: "msgtype \<lparr>msgtype = EMOTE, body = ascii ''waves'', format = None, formatted_body = None\<rparr> = EMOTE"
    by simp
  show ?thesis
    using emote_mutates_input [OF t, of "(\<lambda>s. Inl KeyError)" "[]"]
    by (simp add: me_prefix_def ascii_def)
qed

text \<open>
  Claim C9.  When the user id of a pill resolves neither to a user with a uuid nor to a
  puppet, \<open>user_pill_to_fstring\<close> returns the message string as it is.  When it resolves,
  the text is unchanged and one mention entity with offset \<open>0\<close> and the length of the
  text is appended, carrying the user's uuid, or else the puppet's.
\<close>

theorem unresolvable_pill:
  "((case get_user_by_mxid uid of None \<Rightarrow> True | Some usr \<Rightarrow> user_uuid usr = None) \<and>
    get_puppet_by_mxid uid = None \<longrightarrow>
      user_pill_to_fstring get_user_by_mxid get_puppet_by_mxid msg uid = Inr msg) \<and>
   (get_user_by_mxid uid = Some usr \<and> user_uuid usr = Some u \<longrightarrow>
      user_pill_to_fstring get_user_by_mxid get_puppet_by_mxid msg uid =
        Inr (msg\<lparr>entities := entities msg @
               [\<lparr>uuid = Some u, start = 0, length_m = int (length (text_fs msg))\<rparr>]\<rparr>)) \<and>
   ((case get_user_by_mxid uid of None \<Rightarrow> True | Some usr \<Rightarrow> user_uuid usr = None) \<and>
    get_puppet_by_mxid uid = Some p \<longrightarrow>
      user_pill_to_fstring get_user_by_mxid get_puppet_by_mxid msg uid =
        Inr (msg\<lparr>entities := entities msg @
               [\<lparr>uuid = puppet_uuid p, start = 0, length_m = int (length (text_fs msg))\<rparr>]\<rparr>))"
  by (auto simp: user_pill_to_fstring_def format_fs_def no_kwargs_def split: option.splits)

theorem unresolvable_pill_witness:
  "user_pill_to_fstring (\<lambda>i. Some \<lparr>user_uuid = None\<rparr>) (\<lambda>i. None)
      \<lparr>text_fs = ascii ''Alice'', entities = []\<rparr> (ascii ''@alice:example.org'')
     = Inr \<lparr>text_fs = ascii ''Alice'', entities = []\<rparr> \<and>
   user_pill_to_fstring (\<lambda>i. Some \<lparr>user_uuid = Some 7\<rparr>) (\<lambda>i. None)
      \<lparr>text_fs = ascii ''Alice'', entities = []\<rparr> (ascii ''@alice:example.org'')
     = Inr \<lparr>text_fs = ascii ''Alice'',
            entities = [\<lparr>uuid = Some 7, start = 0, length_m = 5\<rparr>]\<rparr> \<and>
   user_pill_to_fstring (\<lambda>i. None) (\<lambda>i. Some \<lparr>puppet_uuid = Some 9, puppet_name = None, puppet_mxid = []\<rparr>)
      \<lparr>text_fs = ascii ''Alice'', entities = []\<rparr> (ascii ''@alice:example.org'')
     = Inr \<lparr>text_fs = ascii ''Alice'',
            entities = [\<lparr>uuid = Some 9, start = 0, length_m = 5\<rparr>]\<rparr>"
  using unresolvable_pill [of "(\<lambda>i. Some \<lparr>user_uuid = None\<rparr>)" "ascii ''@alice:example.org''"
          "(\<lambda>i. None)" "\<lparr>text_fs = ascii ''Alice'', entities = []\<rparr>"]
        unresolvable_pill [of "(\<lambda>i. Some \<lparr>user_uuid = Some 7\<rparr>)" "ascii ''@alice:example.org''"
          "(\<lambda>i. None)" "\<lparr>text_fs = ascii ''Alice'', entities = []\<rparr>" "\<lparr>user_uuid = Some 7\<rparr>" 7]
        unresolvable_pill [of "(\<lambda>i. None)" "ascii ''@alice:example.org''"
          "(\<lambda>i. Some \<lparr>puppet_uuid = Some 9, puppet_name = None, puppet_mxid = []\<rparr>)"
          "\<lparr>text_fs = ascii ''Alice'', entities = []\<rparr>" "\<lparr>user_uuid = None\<rparr>" 0
          "\<lparr>puppet_uuid = Some 9, puppet_name = None, puppet_mxid = []\<rparr>"]
  by (simp add: ascii_def)

section \<open>Properties of \<open>format\<close>\<close>

lemma format_wrap:
  "is_wrap (k, kw) \<Longrightarrow>
   format_fs k kw s = Inr (apply_affixes (wrap_prefix k kw) (wrap_suffix k kw) s)"
  by (cases k) (auto simp: is_wrap_def format_fs_def wrap_prefix_def wrap_suffix_def)

lemma apply_affixes_text:
  "text_fs (apply_affixes p q s) = p @ text_fs s @ q"
  by (simp add: apply_affixes_def offset_entities_def)

lemma apply_affixes_entities:
  "entities (apply_affixes p q s) = map (shift_entity (int (length p))) (entities s)"
  by (simp add: apply_affixes_def offset_entities_def)

lemma shift_entity_add: "shift_entity a (shift_entity b e) = shift_entity (b + a) e"
  by (simp add: shift_entity_def)

lemma shift_entity_0: "shift_entity 0 e = e"
  by (simp add: shift_entity_def)

lemma format_all_wraps:
  "list_all is_wrap ops \<Longrightarrow>
   \<exists>s'. format_all ops s = Inr s' \<and>
        text_fs s' = concat (rev (map (\<lambda>(k, kw). wrap_prefix k kw) ops)) @ text_fs s
                       @ concat (map (\<lambda>(k, kw). wrap_suffix k kw) ops) \<and>
        entities s' = map (shift_entity (prefix_total ops)) (entities s)"
proof (induction ops arbitrary: s)
  case Nil
  then show ?case by (simp add: prefix_total_def shift_entity_0 map_idI)
next
  case (Cons op ops)
  obtain k kw where op: "op = (k, kw)" by (cases op)
  from Cons.prems op have w: "is_wrap (k, kw)" and rest: "list_all is_wrap ops" by simp_all
  let ?s1 = "apply_affixes (wrap_prefix k kw) (wrap_suffix k kw) s"
  from Cons.IH [OF rest, of ?s1] obtain s' where
    r: "format_all ops ?s1 = Inr s'" and
    t: "text_fs s' = concat (rev (map (\<lambda>(k, kw). wrap_prefix k kw) ops)) @ text_fs ?s1
                       @ concat (map (\<lambda>(k, kw). wrap_suffix k kw) ops)" and
    e: "entities s' = map (shift_entity (prefix_total ops)) (entities ?s1)"
    by blast
  have "format_all (op # ops) s = Inr s'"
    using op r format_wrap [OF w] by simp
  moreover have "text_fs s' = concat (rev (map (\<lambda>(k, kw). wrap_prefix k kw) (op # ops))) @ text_fs s
                       @ concat (map (\<lambda>(k, kw). wrap_suffix k kw) (op # ops))"
    using t op by (simp add: apply_affixes_text)
  moreover have "entities s' = map (shift_entity (prefix_total (op # ops))) (entities s)"
    using e op by (simp add: apply_affixes_entities shift_entity_add prefix_total_def)
  ultimately show ?case by blast
qed

text \<open>
  Claim C3.  A sequence of nested wrapping kinds (bold, italic, strikethrough, inline
  code, preformatted, header), applied innermost first, never fails; the final text is
  the prefixes, the old text and the suffixes; every entity attached before keeps its
  uuid and length, and its offset is the original one plus the sum of the lengths of all
  prefixes.  A single \<open>format\<close> call of such a kind gives prefix + old text + suffix and
  moves every offset by the length of the prefix.
\<close>

theorem wrap_offset_invariant:
  assumes "list_all is_wrap ops"
  shows "\<exists>s'. format_all ops s = Inr s' \<and>
           text_fs s' = concat (rev (map (\<lambda>(k, kw). wrap_prefix k kw) ops)) @ text_fs s
                          @ concat (map (\<lambda>(k, kw). wrap_suffix k kw) ops) \<and>
           map start (entities s') = map (\<lambda>e. start e + prefix_total ops) (entities s) \<and>
           map length_m (entities s') = map length_m (entities s) \<and>
           map uuid (entities s') = map uuid (entities s) \<and>
           (\<forall>k kw. is_wrap (k, kw) \<longrightarrow>
              (\<exists>r. format_fs k kw s = Inr r \<and>
                   text_fs r = wrap_prefix k kw @ text_fs s @ wrap_suffix k kw \<and>
                   map start (entities r) =
                     map (\<lambda>e. start e + int (length (wrap_prefix k kw))) (entities s)))"
proof -
  from format_all_wraps [OF assms, of s] obtain s' where
    r: "format_all ops s = Inr s'" and
    t: "text_fs s' = concat (rev (map (\<lambda>(k, kw). wrap_prefix k kw) ops)) @ text_fs s
                       @ concat (map (\<lambda>(k, kw). wrap_suffix k kw) ops)" and
    e: "entities s' = map (shift_entity (prefix_total ops)) (entities s)"
    by blast
  have 1: "map start (entities s') = map (\<lambda>e. start e + prefix_total ops) (entities s)"
    using e by (simp add: shift_entity_def)
  have 2: "map length_m (entities s') = map length_m (entities s)"
    using e by (simp add: shift_entity_def)
  have 3: "map uuid (entities s') = map uuid (entities s)"
    using e by (simp add: shift_entity_def)
  have 4: "\<forall>k kw. is_wrap (k, kw) \<longrightarrow>
              (\<exists>r. format_fs k kw s = Inr r \<and>
                   text_fs r = wrap_prefix k kw @ text_fs s @ wrap_suffix k kw \<and>
                   map start (entities r) =
                     map (\<lambda>e. start e + int (length (wrap_prefix k kw))) (entities s))"
    by (simp add: format_wrap apply_affixes_text apply_affixes_entities shift_entity_def)
  from r t 1 2 3 4 show ?thesis by blast
qed

theorem wrap_offset_invariant_witness:
  "format_all [(BOLD, no_kwargs), (HEADER, no_kwargs\<lparr>kw_size := Some 2\<rparr>)]
      \<lparr>text_fs = ascii ''Hi Al'', entities = [\<lparr>uuid = Some 7, start = 3, length_m = 2\<rparr>]\<rparr>
   = Inr \<lparr>text_fs = ascii ''## **Hi Al**'',
          entities = [\<lparr>uuid = Some 7, start = 8, length_m = 2\<rparr>]\<rparr>"
proof -
  have w: "list_all is_wrap [(BOLD, no_kwargs), (HEADER, no_kwargs\<lparr>kw_size := Some 2\<rparr>)]"
    by (simp add: is_wrap_def)
  have p: "prefix_total [(BOLD, no_kwargs), (HEADER, no_kwargs\<lparr>kw_size := Some 2\<rparr>)] = 5"
    by (simp add: prefix_total_def wrap_prefix_def ascii_def no_kwargs_def)
  from wrap_offset_invariant [OF w,
      of "\<lparr>text_fs = ascii ''Hi Al'', entities = [\<lparr>uuid = Some 7, start = 3, length_m = 2\<rparr>]\<rparr>"]
  obtain s' where
    r: "format_all [(BOLD, no_kwargs), (HEADER, no_kwargs\<lparr>kw_size := Some 2\<rparr>)]
          \<lparr>text_fs = ascii ''Hi Al'', entities = [\<lparr>uuid = Some 7, start = 3, length_m = 2\<rparr>]\<rparr> = Inr s'"
    by blast
  have h: "replicate 2 (0x23::nat) = [0x23, 0x23]" by (simp add: numeral_2_eq_2)
  from r [symmetric] show ?thesis
    by (simp add: format_fs_def apply_affixes_def offset_entities_def shift_entity_def
        ascii_def no_kwargs_def h)
qed

section \<open>Properties of \<open>signal_to_matrix\<close>\<close>

lemma str_replace_char_Nil [simp]: "str_replace_char c r [] = []"
  by (simp add: str_replace_char_def)

lemma str_replace_char_append [simp]:
  "str_replace_char c r (a @ b) = str_replace_char c r a @ str_replace_char c r b"
  by (simp add: str_replace_char_def)

lemma str_replace_char_Cons:
  "str_replace_char c r (x # xs) = (if x = c then r else [x]) @ str_replace_char c r xs"
  by (simp add: str_replace_char_def)

lemma html_escape_Nil [simp]: "html_escape [] = []"
  by (simp add: html_escape_def)

lemma html_escape_Cons: "html_escape (x # xs) = escape_char x @ html_escape xs"
proof -
  have "html_escape ([x] @ xs) = escape_char x @ html_escape xs"
    unfolding html_escape_def str_replace_char_append
    by (simp add: str_replace_char_Cons escape_char_def ascii_def)
  then show ?thesis by simp
qed

lemma html_escape_chars: "html_escape s = concat (map escape_char s)"
  by (induction s) (simp_all add: html_escape_Cons)

lemma html_escape_append: "html_escape (a @ b) = html_escape a @ html_escape b"
  by (simp add: html_escape_chars)

lemma take_drop_nth: "h \<le> length t \<Longrightarrow> take (h - l) (drop l t) = map ((!) t) [l..<h]"
proof (rule nth_equalityI)
  assume h: "h \<le> length t"
  then show "length (take (h - l) (drop l t)) = length (map ((!) t) [l..<h])" by simp
  fix i assume "i < length (take (h - l) (drop l t))"
  with h have "i < h - l" by simp
  then show "take (h - l) (drop l t) ! i = map ((!) t) [l..<h] ! i"
    using h by (simp add: nth_map_upt)
qed

lemma pyslice_nth:
  "0 \<le> a \<Longrightarrow> a \<le> b \<Longrightarrow> b \<le> int (length t) \<Longrightarrow> pyslice t a b = map ((!) t) [nat a..<nat b]"
proof -
  assume a: "0 \<le> a" and ab: "a \<le> b" and b: "b \<le> int (length t)"
  then have "slice_index (length t) a = nat a" "slice_index (length t) b = nat b"
    by (auto simp: slice_index_def min_def)
  moreover from b have "nat b \<le> length t" by simp
  ultimately show ?thesis by (simp add: pyslice_def take_drop_nth)
qed

lemma pyslice_from_nth:
  "0 \<le> a \<Longrightarrow> pyslice_from t a = map ((!) t) [nat a..<length t]"
proof -
  assume a: "0 \<le> a"
  show ?thesis
  proof (cases "nat a \<le> length t")
    case True
    with a have "slice_index (length t) a = nat a" by (auto simp: slice_index_def min_def)
    then show ?thesis using take_drop_nth [of "length t" t "nat a"] by (simp add: pyslice_from_def)
  next
    case False
    with a have "slice_index (length t) a = length t" by (auto simp: slice_index_def min_def)
    with False show ?thesis by (simp add: pyslice_from_def)
  qed
qed

lemma wf_mentions_le: "wf_mentions lo n ms \<Longrightarrow> lo \<le> n"
proof (induction ms arbitrary: lo)
  case Nil
  then show ?case by simp
next
  case (Cons m ms)
  then have "start m + length_m m \<le> n" "lo \<le> start m" "0 < length_m m" by simp_all
  then show ?case by linarith
qed

lemma wf_mentions_start: "wf_mentions lo n ms \<Longrightarrow> m \<in> set ms \<Longrightarrow> lo \<le> start m"
proof (induction ms arbitrary: lo)
  case Nil
  then show ?case by simp
next
  case (Cons x xs)
  show ?case
  proof (cases "m = x")
    case True
    with Cons.prems show ?thesis by simp
  next
    case False
    with Cons.prems have "m \<in> set xs" and "wf_mentions (start x + length_m x) n xs"
      and "lo \<le> start x" and "0 < length_m x" by simp_all
    with Cons.IH [of "start x + length_m x"] show ?thesis by linarith
  qed
qed

lemma covering_before:
  assumes "i < start m" and "wf_mentions (start m + length_m m) n ms" and "0 < length_m m"
  shows "covering (m # ms) i = None"
proof -
  have "\<And>x. x \<in> set ms \<Longrightarrow> i < start x"
    using wf_mentions_start [OF assms(2)] assms(1,3) by fastforce
  then have "\<And>x. x \<in> set ms \<Longrightarrow> \<not> (start x \<le> i \<and> i < start x + length_m x)"
    by fastforce
  with assms(1) show ?thesis by (simp add: covering_def find_None_iff)
qed

lemma covering_inside:
  "start m \<le> i \<Longrightarrow> i < start m + length_m m \<Longrightarrow> covering (m # ms) i = Some m"
  by (simp add: covering_def)

lemma covering_after:
  "start m + length_m m \<le> i \<Longrightarrow> covering (m # ms) i = covering ms i"
  by (simp add: covering_def)

lemma upt_split: "a \<le> b \<Longrightarrow> b \<le> c \<Longrightarrow> [a..<c] = [a..<b] @ [b..<c]"
  by (metis le_Suc_ex upt_add_eq_append)

lemma piece_Nil: "piece lit men [] t = (\<lambda>i. lit (t ! i))"
  by (rule ext) (simp add: piece_def covering_def)

lemma piece_split:
  assumes lo: "0 \<le> lo" and ls: "lo \<le> start m" and l: "0 < length_m m"
    and wf: "wf_mentions (start m + length_m m) (int (length t)) ms"
  shows "concat (map (piece lit men (m # ms) t) [nat lo..<length t]) =
         concat (map (\<lambda>i. lit (t ! i)) [nat lo..<nat (start m)]) @ men m @
         concat (map (piece lit men ms t) [nat (start m + length_m m)..<length t])"
proof -
  let ?a = "nat lo" and ?b = "nat (start m)" and ?c = "nat (start m + length_m m)"
  let ?n = "length t"
  from wf_mentions_le [OF wf] have cn: "?c \<le> ?n" by simp
  from lo ls have ab: "?a \<le> ?b" by simp
  from lo ls l have bc: "Suc ?b \<le> ?c" by simp
  have s0: "0 \<le> start m" using lo ls by simp
  have split: "[?a..<?n] = [?a..<?b] @ [?b] @ [Suc ?b..<?c] @ [?c..<?n]"
  proof -
    have "[?a..<?n] = [?a..<?b] @ [?b..<?n]"
      using ab bc cn by (intro upt_split) simp_all
    also have "[?b..<?n] = ?b # [Suc ?b..<?n]"
      using bc cn by (simp add: upt_conv_Cons)
    also have "[Suc ?b..<?n] = [Suc ?b..<?c] @ [?c..<?n]"
      using bc cn by (intro upt_split) simp_all
    finally show ?thesis by simp
  qed
  have p1: "map (piece lit men (m # ms) t) [?a..<?b] = map (\<lambda>i. lit (t ! i)) [?a..<?b]"
  proof -
    have "\<And>i. i \<in> set [?a..<?b] \<Longrightarrow> piece lit men (m # ms) t i = lit (t ! i)"
    proof -
      fix i assume "i \<in> set [?a..<?b]"
      then have "int i < start m" by auto
      from covering_before [OF this wf l] show "piece lit men (m # ms) t i = lit (t ! i)"
        by (simp add: piece_def)
    qed
    then show ?thesis by simp
  qed
  have p2: "piece lit men (m # ms) t ?b = men m"
    using s0 l by (simp add: piece_def covering_inside)
  have p3: "concat (map (piece lit men (m # ms) t) [Suc ?b..<?c]) = []"
  proof -
    have "\<And>i. i \<in> set [Suc ?b..<?c] \<Longrightarrow> piece lit men (m # ms) t i = []"
    proof -
      fix i assume "i \<in> set [Suc ?b..<?c]"
      then have "start m \<le> int i" "int i < start m + length_m m" "int i \<noteq> start m"
        using s0 by auto
      then show "piece lit men (m # ms) t i = []"
        by (simp add: piece_def covering_inside)
    qed
    then show ?thesis by simp
  qed
  have p4: "map (piece lit men (m # ms) t) [?c..<?n] = map (piece lit men ms t) [?c..<?n]"
  proof -
    have "\<And>i. i \<in> set [?c..<?n] \<Longrightarrow> piece lit men (m # ms) t i = piece lit men ms t i"
    proof -
      fix i assume "i \<in> set [?c..<?n]"
      then have "start m + length_m m \<le> int i" by auto
      then show "piece lit men (m # ms) t i = piece lit men ms t i"
        by (simp add: piece_def covering_after)
    qed
    then show ?thesis by simp
  qed
  show ?thesis
    unfolding split by (simp add: p1 p2 p3 p4 del: upt_Suc)
qed

lemma mention_loop_pieces:
  "0 \<le> lo \<Longrightarrow> wf_mentions lo (int (length t)) ms \<Longrightarrow> list_all (resolves lk) ms \<Longrightarrow>
   \<exists>last TX HX.
     mention_loop lk t ms (lo, tc, hc) = Inr (last, tc @ TX, hc @ HX) \<and>
     concat TX @ pyslice_from t last =
       concat (map (piece (\<lambda>c. [c]) (resolved_name lk) ms t) [nat lo..<length t]) \<and>
     concat HX @ html_escape (pyslice_from t last) =
       concat (map (piece escape_char (resolved_anchor lk) ms t) [nat lo..<length t])"
proof (induction ms arbitrary: lo tc hc)
  case Nil
  have 1: "pyslice_from t lo = map ((!) t) [nat lo..<length t]"
    using Nil.prems(1) by (rule pyslice_from_nth)
  have "mention_loop lk t [] (lo, tc, hc) = Inr (lo, tc @ [], hc @ [])" by simp
  moreover have "concat [] @ pyslice_from t lo =
       concat (map (piece (\<lambda>c. [c]) (resolved_name lk) [] t) [nat lo..<length t])"
    by (simp add: piece_Nil 1)
  moreover have "concat [] @ html_escape (pyslice_from t lo) =
       concat (map (piece escape_char (resolved_anchor lk) [] t) [nat lo..<length t])"
    by (simp add: piece_Nil 1 html_escape_chars o_def)
  ultimately show ?case by blast
next
  case (Cons m ms)
  from Cons.prems have lo: "0 \<le> lo" and ls: "lo \<le> start m" and l: "0 < length_m m"
    and wf: "wf_mentions (start m + length_m m) (int (length t)) ms"
    and rm: "resolves lk m" and rest: "list_all (resolves lk) ms" by simp_all
  from rm obtain p where p: "lk (uuid m) = Some p" and vp: "valid_str (name_or_mxid p)"
    by (auto simp: resolves_def split: option.splits)
  have nm: "add_surrogate (name_or_mxid p) = Inr (resolved_name lk m)"
    using p vp by (simp add: add_surrogate_total resolved_name_def)
  have an: "anchor p (resolved_name lk m) = resolved_anchor lk m"
    using p by (simp add: resolved_name_def resolved_anchor_def)
  let ?before = "pyslice t lo (start m)"
  from wf_mentions_le [OF wf] l have sn: "start m \<le> int (length t)" by linarith
  have bf: "?before = map ((!) t) [nat lo..<nat (start m)]"
    using lo ls sn by (rule pyslice_nth)
  have step: "mention_loop lk t (m # ms) (lo, tc, hc) =
          mention_loop lk t ms (start m + length_m m, (tc @ [?before]) @ [resolved_name lk m],
            (hc @ [html_escape ?before]) @ [resolved_anchor lk m])"
    using p nm an by (simp add: Let_def)
  have lo': "0 \<le> start m + length_m m" using lo ls l by linarith
  from Cons.IH [OF lo' wf rest] obtain last TX HX where
    r: "mention_loop lk t ms (start m + length_m m, (tc @ [?before]) @ [resolved_name lk m],
            (hc @ [html_escape ?before]) @ [resolved_anchor lk m]) =
          Inr (last, ((tc @ [?before]) @ [resolved_name lk m]) @ TX,
                     ((hc @ [html_escape ?before]) @ [resolved_anchor lk m]) @ HX)" and
    t1: "concat TX @ pyslice_from t last =
       concat (map (piece (\<lambda>c. [c]) (resolved_name lk) ms t) [nat (start m + length_m m)..<length t])" and
    t2: "concat HX @ html_escape (pyslice_from t last) =
       concat (map (piece escape_char (resolved_anchor lk) ms t) [nat (start m + length_m m)..<length t])"
    by blast
  have "mention_loop lk t (m # ms) (lo, tc, hc) =
          Inr (last, tc @ ([?before, resolved_name lk m] @ TX),
                     hc @ ([html_escape ?before, resolved_anchor lk m] @ HX))"
    using step r by simp
  moreover have "concat ([?before, resolved_name lk m] @ TX) @ pyslice_from t last =
       concat (map (piece (\<lambda>c. [c]) (resolved_name lk) (m # ms) t) [nat lo..<length t])"
    using t1 by (simp add: piece_split [OF lo ls l wf] bf)
  moreover have "concat ([html_escape ?before, resolved_anchor lk m] @ HX) @ html_escape (pyslice_from t last) =
       concat (map (piece escape_char (resolved_anchor lk) (m # ms) t) [nat lo..<length t])"
    using t2 by (simp add: piece_split [OF lo ls l wf] bf html_escape_chars o_def)
  ultimately show ?case by blast
qed

text \<open>
  Claim C4, as amended.  For a body whose mentions are in bounds, sorted, not overlapping
  and all resolved, \<open>signal_to_matrix\<close> computes, in UTF-16 units, the body with each
  mention span replaced by the puppet's name (its mxid when it has no name) and every
  other unit kept, and the same with every other unit HTML-escaped and each span replaced
  by the unescaped anchor to the puppet's mxid around the name.  It returns the collapse
  (\<open>del_surrogate\<close>) of the first as body and of the second as formatted body, with
  format HTML; when a collapse fails, it raises that decoding error.
\<close>

theorem mention_substitution:
  assumes "valid_str (message_body msg)"
    and "message_mentions msg \<noteq> []"
    and "wf_mentions 0 (int (length (expand (message_body msg)))) (message_mentions msg)"
    and "list_all (resolves lk) (message_mentions msg)"
  shows "signal_to_matrix lk msg =
     (case del_surrogate (substitute (\<lambda>c. [c]) (resolved_name lk)
               (expand (message_body msg)) (message_mentions msg)) of
        Inl e \<Rightarrow> Inl e
      | Inr b \<Rightarrow>
          (case del_surrogate (substitute escape_char (resolved_anchor lk)
                    (expand (message_body msg)) (message_mentions msg)) of
             Inl e \<Rightarrow> Inl e
           | Inr fb \<Rightarrow>
               Inr \<lparr>msgtype = TEXT, body = b, format = Some HTML, formatted_body = Some fb\<rparr>))"
proof -
  let ?t = "expand (message_body msg)" and ?ms = "message_mentions msg"
  from mention_loop_pieces [OF _ assms(3) assms(4), of "[]" "[]"] obtain last TX HX where
    r: "mention_loop lk ?t ?ms (0, [], []) = Inr (last, TX, HX)" and
    t1: "concat TX @ pyslice_from ?t last = substitute (\<lambda>c. [c]) (resolved_name lk) ?t ?ms" and
    t2: "concat HX @ html_escape (pyslice_from ?t last) =
           substitute escape_char (resolved_anchor lk) ?t ?ms"
    by (auto simp: substitute_def)
  show ?thesis
    using assms(1,2) r t1 t2
    by (simp add: signal_to_matrix_def add_surrogate_total Let_def split: sum.splits)
qed

lemma hi_body: "expand (message_body hi_message) = ascii ''Hi @A & @B''"
  by (simp add: hi_message_def ascii_def expand_def expand_char_def)

lemma hi_plain:
  "substitute (\<lambda>c. [c]) (resolved_name puppets) (ascii ''Hi @A & @B'') (message_mentions hi_message)
   = ascii ''Hi Alice & @b:x''"
  by (simp add: substitute_def piece_def covering_def hi_message_def ascii_def upt_rec
      resolved_name_def puppets_def name_or_mxid_def expand_def expand_char_def)

lemma hi_html:
  "substitute escape_char (resolved_anchor puppets) (ascii ''Hi @A & @B'') (message_mentions hi_message)
   = ascii ''Hi <a href='' @ [0x22] @ ascii ''https://matrix.to/#/@a:x'' @ [0x22] @
     ascii ''>Alice</a> &amp; <a href='' @ [0x22] @ ascii ''https://matrix.to/#/@b:x'' @ [0x22] @
     ascii ''>@b:x</a>''"
  by (simp add: substitute_def piece_def covering_def hi_message_def ascii_def upt_rec
      resolved_anchor_def anchor_def puppets_def name_or_mxid_def expand_def expand_char_def
      escape_char_def)

lemma del_surrogate_clean:
  "valid_str s \<Longrightarrow> no_surrogates s \<Longrightarrow> del_surrogate s = Inr s"
proof -
  assume v: "valid_str s" and n: "no_surrogates s"
  have "decode_units (expand s) = Inr s" using v n by (rule decode_expand)
  then show ?thesis by (simp add: del_surrogate_eq)
qed

theorem mention_substitution_witness:
  "valid_str (message_body hi_message) \<and>
   wf_mentions 0 (int (length (expand (message_body hi_message)))) (message_mentions hi_message) \<and>
   list_all (resolves puppets) (message_mentions hi_message) \<and>
   signal_to_matrix puppets hi_message =
     Inr \<lparr>msgtype = TEXT, body = ascii ''Hi Alice & @b:x'', format = Some HTML,
          formatted_body = Some (ascii ''Hi <a href='' @ [0x22] @ ascii ''https://matrix.to/#/@a:x''
            @ [0x22] @ ascii ''>Alice</a> &amp; <a href='' @ [0x22]
            @ ascii ''https://matrix.to/#/@b:x'' @ [0x22] @ ascii ''>@b:x</a>'')\<rparr>"
proof -
  have v: "valid_str (message_body hi_message)"
    by (simp add: hi_message_def ascii_def)
  have n: "message_mentions hi_message \<noteq> []"
    by (simp add: hi_message_def)
  have w: "wf_mentions 0 (int (length (expand (message_body hi_message)))) (message_mentions hi_message)"
    unfolding hi_body by (simp add: hi_message_def ascii_def)
  have r: "list_all (resolves puppets) (message_mentions hi_message)"
    by (simp add: hi_message_def resolves_def puppets_def name_or_mxid_def ascii_def)
  have d1: "del_surrogate (ascii ''Hi Alice & @b:x'') = Inr (ascii ''Hi Alice & @b:x'')"
    by (rule del_surrogate_clean)
       (simp_all add: ascii_def no_surrogates_def is_surrogate_def is_high_def is_low_def)
  have d2: "del_surrogate (ascii ''Hi <a href='' @ [0x22] @ ascii ''https://matrix.to/#/@a:x''
            @ [0x22] @ ascii ''>Alice</a> &amp; <a href='' @ [0x22]
            @ ascii ''https://matrix.to/#/@b:x'' @ [0x22] @ ascii ''>@b:x</a>'')
          = Inr (ascii ''Hi <a href='' @ [0x22] @ ascii ''https://matrix.to/#/@a:x''
            @ [0x22] @ ascii ''>Alice</a> &amp; <a href='' @ [0x22]
            @ ascii ''https://matrix.to/#/@b:x'' @ [0x22] @ ascii ''>@b:x</a>'')"
    by (rule del_surrogate_clean)
       (simp_all add: ascii_def no_surrogates_def is_surrogate_def is_high_def is_low_def)
  show ?thesis
    using mention_substitution [OF v n w r] v w r
    unfolding hi_body hi_plain hi_html d1 d2 by simp
qed

lemma clean_append [simp]: "clean (a @ b) = (clean a \<and> clean b)"
  by (simp add: clean_def)

lemma clean_Nil [simp]: "clean []"
  by (simp add: clean_def)

lemma clean_concat: "clean (concat xs) = list_all clean xs"
  by (induction xs) simp_all

lemma clean_valid: "clean s \<Longrightarrow> valid_str s"
  by (simp add: clean_def valid_str_def list_all_iff)

lemma clean_no_surrogates: "clean s \<Longrightarrow> no_surrogates s"
  by (simp add: clean_def no_surrogates_def list_all_iff)

lemma del_surrogate_clean': "clean s \<Longrightarrow> del_surrogate s = Inr s"
  by (simp add: del_surrogate_clean clean_valid clean_no_surrogates)

lemma bmp_clean: "bmp_text s \<Longrightarrow> clean s"
  by (auto simp: bmp_text_def clean_def list_all_iff)

lemma bmp_expand: "bmp_text s \<Longrightarrow> expand s = s"
  by (rule expand_small_id) (simp add: bmp_text_def list_all_iff)

lemma bmp_add_surrogate: "bmp_text s \<Longrightarrow> add_surrogate s = Inr s"
  by (simp add: add_surrogate_total bmp_clean clean_valid bmp_expand)

lemma clean_subset: "clean t \<Longrightarrow> set s \<subseteq> set t \<Longrightarrow> clean s"
  by (auto simp: clean_def list_all_iff)

lemma clean_pyslice: "clean t \<Longrightarrow> clean (pyslice t a b)"
proof -
  assume "clean t"
  moreover have "set (pyslice t a b) \<subseteq> set t"
    unfolding pyslice_def Let_def
    by (meson set_take_subset set_drop_subset subset_trans)
  ultimately show ?thesis by (rule clean_subset)
qed

lemma clean_pyslice_from: "clean t \<Longrightarrow> clean (pyslice_from t a)"
proof -
  assume "clean t"
  moreover have "set (pyslice_from t a) \<subseteq> set t"
    unfolding pyslice_from_def by (rule set_drop_subset)
  ultimately show ?thesis by (rule clean_subset)
qed

lemma clean_ascii: "clean (ascii s)"
proof -
  have "\<And>c::char. (of_char c :: nat) \<le> 0x10FFFF \<and> \<not> is_surrogate (of_char c)"
  proof -
    fix c :: char
    have "(of_char c :: nat) < 256" by (rule nat_of_char_less_256)
    then show "(of_char c :: nat) \<le> 0x10FFFF \<and> \<not> is_surrogate (of_char c)"
      unfolding is_surrogate_def is_high_def is_low_def by linarith
  qed
  then show ?thesis by (simp add: clean_def ascii_def list_all_iff)
qed

lemma clean_Cons [simp]:
  "clean (c # cs) = (c \<le> 0x10FFFF \<and> \<not> is_surrogate c \<and> clean cs)"
  by (simp add: clean_def)

lemma clean_escape_char: "c \<le> 0x10FFFF \<Longrightarrow> \<not> is_surrogate c \<Longrightarrow> clean (escape_char c)"
  by (simp add: escape_char_def clean_ascii)

lemma clean_html_escape: "clean s \<Longrightarrow> clean (html_escape s)"
  by (induction s) (simp_all add: html_escape_Cons clean_escape_char)

lemma quote_not_surrogate: "\<not> is_surrogate 0x22"
  by (simp add: is_surrogate_def is_high_def is_low_def)

lemma clean_anchor: "clean (puppet_mxid p) \<Longrightarrow> clean name \<Longrightarrow> clean (anchor p name)"
  by (simp add: anchor_def clean_ascii quote_not_surrogate)

lemma mention_loop_clean:
  "clean t \<Longrightarrow> list_all (resolves_bmp lk) ms \<Longrightarrow> list_all clean tc \<Longrightarrow> list_all clean hc \<Longrightarrow>
   \<exists>last TX HX. mention_loop lk t ms (lo, tc, hc) = Inr (last, TX, HX) \<and>
      list_all clean TX \<and> list_all clean HX"
proof (induction ms arbitrary: lo tc hc)
  case Nil
  then show ?case by simp
next
  case (Cons m ms)
  from Cons.prems(2) have rm: "resolves_bmp lk m" and rest: "list_all (resolves_bmp lk) ms"
    by simp_all
  from rm obtain p where p: "lk (uuid m) = Some p"
    and bn: "bmp_text (name_or_mxid p)" and cm: "clean (puppet_mxid p)"
    by (auto simp: resolves_bmp_def split: option.splits)
  let ?before = "pyslice t lo (start m)"
  have cb: "clean ?before" using Cons.prems(1) by (rule clean_pyslice)
  have cn: "clean (name_or_mxid p)" using bn by (rule bmp_clean)
  have tc': "list_all clean ((tc @ [?before]) @ [name_or_mxid p])"
    using Cons.prems(3) cb cn by simp
  have hc': "list_all clean ((hc @ [html_escape ?before]) @ [anchor p (name_or_mxid p)])"
    using Cons.prems(4) cb cn cm by (simp add: clean_html_escape clean_anchor)
  have step: "mention_loop lk t (m # ms) (lo, tc, hc) =
      mention_loop lk t ms (start m + length_m m, (tc @ [?before]) @ [name_or_mxid p],
         (hc @ [html_escape ?before]) @ [anchor p (name_or_mxid p)])"
    using p bn by (simp add: Let_def bmp_add_surrogate)
  from Cons.IH [OF Cons.prems(1) rest tc' hc', of "start m + length_m m"] step
  show ?case by simp
qed

lemma decode_units_error: "decode_units us = Inl e \<Longrightarrow> e = UnicodeDecodeError"
  by (induction us arbitrary: e rule: decode_units.induct)
     (auto split: if_splits list.splits sum.splits)

lemma del_surrogate_error: "del_surrogate s = Inl e \<Longrightarrow> e = UnicodeDecodeError"
  by (simp add: del_surrogate_eq decode_units_error)

lemma mention_loop_error: "mention_loop lk t ms st = Inl e \<Longrightarrow> e = AttributeError"
proof (induction ms arbitrary: st)
  case Nil
  then show ?case by simp
next
  case (Cons m ms)
  obtain lo tc hc where st: "st = (lo, tc, hc)" by (cases st)
  show ?case
  proof (cases "lk (uuid m)")
    case None
    with Cons.prems st show ?thesis by (simp add: Let_def)
  next
    case (Some p)
    obtain name where n: "add_surrogate (name_or_mxid p) = Inr name"
      using add_surrogate_defined by blast
    with Cons.prems st Some Cons.IH show ?thesis by (simp add: Let_def)
  qed
qed

lemma signal_to_matrix_error:
  "signal_to_matrix lk msg = Inl e \<Longrightarrow> e = AttributeError \<or> e = UnicodeDecodeError"
proof -
  assume a: "signal_to_matrix lk msg = Inl e"
  obtain t where t: "add_surrogate (message_body msg) = Inr t"
    using add_surrogate_defined by blast
  show ?thesis
  proof (cases "message_mentions msg = []")
    case True
    with a t show ?thesis by (simp add: signal_to_matrix_def)
  next
    case False
    show ?thesis
    proof (cases "mention_loop lk t (message_mentions msg) (0, [], [])")
      case (Inl x)
      with mention_loop_error [OF Inl] a t False show ?thesis
        by (simp add: signal_to_matrix_def)
    next
      case (Inr r)
      obtain last tc hc where r: "r = (last, tc, hc)" by (cases r)
      from a t False Inr r show ?thesis
        by (auto simp: signal_to_matrix_def Let_def split: sum.splits dest: del_surrogate_error)
    qed
  qed
qed

lemma offsets_clamped:
  assumes "bmp_text (message_body msg)"
    and "list_all (resolves_bmp lk) (message_mentions msg)"
  shows "(\<exists>c. signal_to_matrix lk msg = Inr c) \<and>
         (\<forall>m p. message_mentions msg = [m] \<and> lk (uuid m) = Some p \<longrightarrow>
            (\<exists>c. signal_to_matrix lk msg = Inr c \<and>
                 body c = pyslice (message_body msg) 0 (start m) @ name_or_mxid p @
                          pyslice_from (message_body msg) (start m + length_m m)))"
proof -
  let ?t = "message_body msg"
  have ct: "clean ?t" using assms(1) by (rule bmp_clean)
  have as: "add_surrogate ?t = Inr ?t" using assms(1) by (rule bmp_add_surrogate)
  have 1: "\<exists>c. signal_to_matrix lk msg = Inr c"
  proof (cases "message_mentions msg = []")
    case True
    with as show ?thesis by (simp add: signal_to_matrix_def)
  next
    case False
    from mention_loop_clean [OF ct assms(2), of "[]" "[]" 0] obtain last TX HX where
      r: "mention_loop lk ?t (message_mentions msg) (0, [], []) = Inr (last, TX, HX)"
      and cx: "list_all clean TX" and hx: "list_all clean HX" by auto
    have "clean (concat (TX @ [pyslice_from ?t last]))"
      using cx ct by (simp add: clean_concat clean_pyslice_from)
    then have d1: "del_surrogate (concat (TX @ [pyslice_from ?t last])) =
                     Inr (concat (TX @ [pyslice_from ?t last]))"
      by (rule del_surrogate_clean')
    have "clean (concat (HX @ [html_escape (pyslice_from ?t last)]))"
      using hx ct by (simp add: clean_concat clean_pyslice_from clean_html_escape)
    then have d2: "del_surrogate (concat (HX @ [html_escape (pyslice_from ?t last)])) =
                     Inr (concat (HX @ [html_escape (pyslice_from ?t last)]))"
      by (rule del_surrogate_clean')
    show ?thesis
      using False as r d1 d2 by (simp add: signal_to_matrix_def Let_def)
  qed
  have 2: "\<forall>m p. message_mentions msg = [m] \<and> lk (uuid m) = Some p \<longrightarrow>
            (\<exists>c. signal_to_matrix lk msg = Inr c \<and>
                 body c = pyslice ?t 0 (start m) @ name_or_mxid p @
                          pyslice_from ?t (start m + length_m m))"
  proof (intro allI impI)
    fix m p assume h: "message_mentions msg = [m] \<and> lk (uuid m) = Some p"
    with assms(2) have bn: "bmp_text (name_or_mxid p)" and cm: "clean (puppet_mxid p)"
      by (simp_all add: resolves_bmp_def)
    let ?b = "pyslice ?t 0 (start m)" and ?e = "pyslice_from ?t (start m + length_m m)"
    have cb: "clean ?b" and ce: "clean ?e"
      using ct by (simp_all add: clean_pyslice clean_pyslice_from)
    have cn: "clean (name_or_mxid p)" using bn by (rule bmp_clean)
    have d1: "del_surrogate (?b @ name_or_mxid p @ ?e) = Inr (?b @ name_or_mxid p @ ?e)"
      using cb cn ce by (intro del_surrogate_clean') simp
    have d2: "del_surrogate (html_escape ?b @ anchor p (name_or_mxid p) @ html_escape ?e) =
                Inr (html_escape ?b @ anchor p (name_or_mxid p) @ html_escape ?e)"
      using cb cn ce cm by (intro del_surrogate_clean') (simp add: clean_html_escape clean_anchor)
    show "\<exists>c. signal_to_matrix lk msg = Inr c \<and>
                 body c = ?b @ name_or_mxid p @ ?e"
      using h as bn d1 d2 by (simp add: signal_to_matrix_def Let_def bmp_add_surrogate)
  qed
  from 1 2 show ?thesis by blast
qed

text \<open>
  Claim C6, as amended.  \<open>signal_to_matrix\<close> does not check mention offsets.  The only
  errors it raises are the \<open>AttributeError\<close> of a failed puppet lookup and the
  \<open>UnicodeDecodeError\<close> of \<open>del_surrogate\<close>.  For every message whose body and resolved
  names lie in the Basic Multilingual Plane without surrogates, and whose mentions all
  resolve, it returns a result whatever the starts and lengths are; with one mention the
  body is the Python slice before \<open>start\<close>, the name, and the Python slice from
  \<open>start + length\<close> on, both slices clamped to the body.
\<close>

theorem offsets_not_validated:
  "(\<forall>e. signal_to_matrix lk msg = Inl e \<longrightarrow> e = AttributeError \<or> e = UnicodeDecodeError) \<and>
   (bmp_text (message_body msg) \<and> list_all (resolves_bmp lk) (message_mentions msg) \<longrightarrow>
      (\<exists>c. signal_to_matrix lk msg = Inr c) \<and>
      (\<forall>m p. message_mentions msg = [m] \<and> lk (uuid m) = Some p \<longrightarrow>
         (\<exists>c. signal_to_matrix lk msg = Inr c \<and>
              body c = pyslice (message_body msg) 0 (start m) @ name_or_mxid p @
                       pyslice_from (message_body msg) (start m + length_m m))))"
  using signal_to_matrix_error [of lk msg] offsets_clamped [of msg lk] by blast

lemma puppets_11:
  "puppets (Some 11) = Some \<lparr>puppet_uuid = Some 11, puppet_name = Some (ascii ''Alice''),
                            puppet_mxid = ascii ''@a:x''\<rparr>"
  by (simp add: puppets_def)

lemma name_11:
  "name_or_mxid \<lparr>puppet_uuid = Some 11, puppet_name = Some (ascii ''Alice''),
                  puppet_mxid = ascii ''@a:x''\<rparr> = ascii ''Alice''"
  by (simp add: name_or_mxid_def ascii_def)

lemma add_surrogate_ascii: "add_surrogate (ascii s) = Inr (ascii s)"
proof -
  have "\<And>c::char. (of_char c :: nat) < 0x10000 \<and> \<not> is_surrogate (of_char c)"
  proof -
    fix c :: char
    have "(of_char c :: nat) < 256" by (rule nat_of_char_less_256)
    then show "(of_char c :: nat) < 0x10000 \<and> \<not> is_surrogate (of_char c)"
      unfolding is_surrogate_def is_high_def is_low_def by linarith
  qed
  then have "bmp_text (ascii s)" by (simp add: bmp_text_def ascii_def list_all_iff)
  then show ?thesis by (rule bmp_add_surrogate)
qed

text \<open>
  The claim as written wants an error for a mention with \<open>start + length\<close> beyond the
  body, and for one with a negative start and a length of zero.  On both
  \<open>signal_to_matrix\<close> returns a content: the slices are clamped, and a negative bound
  counts from the end.
\<close>

theorem malformed_offsets_counterexample:
  "signal_to_matrix puppets clamped_message =
     Inr \<lparr>msgtype = TEXT, body = ascii ''Alice'', format = Some HTML,
          formatted_body = Some (ascii ''<a href='' @ [0x22] @ ascii ''https://matrix.to/#/@a:x''
            @ [0x22] @ ascii ''>Alice</a>'')\<rparr> \<and>
   signal_to_matrix puppets negative_message =
     Inr \<lparr>msgtype = TEXT, body = ascii ''HAlicei'', format = Some HTML,
          formatted_body = Some (ascii ''H<a href='' @ [0x22] @ ascii ''https://matrix.to/#/@a:x''
            @ [0x22] @ ascii ''>Alice</a>i'')\<rparr>"
proof -
  have d1: "del_surrogate (ascii ''Alice'') = Inr (ascii ''Alice'')"
    by (rule del_surrogate_clean') (rule clean_ascii)
  have d2: "del_surrogate (ascii ''HAlicei'') = Inr (ascii ''HAlicei'')"
    by (rule del_surrogate_clean') (rule clean_ascii)
  have c3: "clean (ascii ''<a href='' @ [0x22] @ ascii ''https://matrix.to/#/@a:x''
            @ [0x22] @ ascii ''>Alice</a>'')"
    by (simp add: clean_ascii quote_not_surrogate)
  have c4: "clean (ascii ''H<a href='' @ [0x22] @ ascii ''https://matrix.to/#/@a:x''
            @ [0x22] @ ascii ''>Alice</a>i'')"
    by (simp add: clean_ascii quote_not_surrogate)
  note d3 = del_surrogate_clean' [OF c3] and d4 = del_surrogate_clean' [OF c4]
  have p1: "pyslice (ascii ''Hi'') 0 0 = []" "pyslice_from (ascii ''Hi'') 100 = []"
    "pyslice (ascii ''Hi'') 0 (- 1) = ascii ''H''" "pyslice_from (ascii ''Hi'') (- 1) = ascii ''i''"
    by (simp_all add: pyslice_def pyslice_from_def slice_index_def ascii_def)
  have h: "html_escape (ascii ''H'') = ascii ''H''" "html_escape (ascii ''i'') = ascii ''i''"
    by (simp_all add: html_escape_chars escape_char_def ascii_def)
  have a1: "ascii ''Alice'' = ascii ''Alice'' @ []" by simp
  have 1: "signal_to_matrix puppets clamped_message =
     Inr \<lparr>msgtype = TEXT, body = ascii ''Alice'', format = Some HTML,
          formatted_body = Some (ascii ''<a href='' @ [0x22] @ ascii ''https://matrix.to/#/@a:x''
            @ [0x22] @ ascii ''>Alice</a>'')\<rparr>"
    using d1 d3
    by (simp add: signal_to_matrix_def clamped_message_def add_surrogate_ascii puppets_11
        name_11 p1 anchor_def Let_def)
       (simp add: ascii_def Let_def)
  have 2: "signal_to_matrix puppets negative_message =
     Inr \<lparr>msgtype = TEXT, body = ascii ''HAlicei'', format = Some HTML,
          formatted_body = Some (ascii ''H<a href='' @ [0x22] @ ascii ''https://matrix.to/#/@a:x''
            @ [0x22] @ ascii ''>Alice</a>i'')\<rparr>"
    using d2 d4
    by (simp add: signal_to_matrix_def negative_message_def add_surrogate_ascii puppets_11
        name_11 p1 h anchor_def Let_def)
       (simp add: ascii_def Let_def pyslice_from_def slice_index_def html_escape_chars escape_char_def)
  from 1 2 show ?thesis by simp
qed

lemma bmp_ascii: "bmp_text (ascii s)"
proof -
  have "\<And>c::char. (of_char c :: nat) < 0x10000 \<and> \<not> is_surrogate (of_char c)"
  proof -
    fix c :: char
    have "(of_char c :: nat) < 256" by (rule nat_of_char_less_256)
    then show "(of_char c :: nat) < 0x10000 \<and> \<not> is_surrogate (of_char c)"
      unfolding is_surrogate_def is_high_def is_low_def by linarith
  qed
  then show ?thesis by (simp add: bmp_text_def ascii_def list_all_iff)
qed

theorem offsets_not_validated_witness:
  "bmp_text (message_body clamped_message) \<and>
   list_all (resolves_bmp puppets) (message_mentions clamped_message) \<and>
   (\<exists>c. signal_to_matrix puppets clamped_message = Inr c \<and> body c = ascii ''Alice'')"
proof -
  have b: "bmp_text (message_body clamped_message)"
    by (simp add: clamped_message_def bmp_ascii)
  have r: "list_all (resolves_bmp puppets) (message_mentions clamped_message)"
    by (simp add: clamped_message_def resolves_bmp_def puppets_11 name_11 bmp_ascii
        clean_ascii)
  have p: "pyslice (ascii ''Hi'') 0 0 = []" "pyslice_from (ascii ''Hi'') 100 = []"
    by (simp_all add: pyslice_def pyslice_from_def slice_index_def ascii_def)
  from offsets_not_validated [of puppets clamped_message] b r have
    "\<forall>m p. message_mentions clamped_message = [m] \<and> puppets (uuid m) = Some p \<longrightarrow>
       (\<exists>c. signal_to_matrix puppets clamped_message = Inr c \<and>
            body c = pyslice (message_body clamped_message) 0 (start m) @ name_or_mxid p @
                     pyslice_from (message_body clamped_message) (start m + length_m m))"
    by blast
  then have "\<exists>c. signal_to_matrix puppets clamped_message = Inr c \<and>
            body c = pyslice (ascii ''Hi'') 0 0 @ ascii ''Alice'' @ pyslice_from (ascii ''Hi'') 100"
    by (simp add: clamped_message_def puppets_11 name_11)
  with b r p show ?thesis by simp
qed

text \<open>
  The claim as written promises the substituted bodies for every in-bounds mention list.
  A mention that ends between the two UTF-16 units of an astral character is in bounds,
  and on it \<open>signal_to_matrix\<close> raises \<open>UnicodeDecodeError\<close>.
\<close>

theorem split_pair_counterexample:
  "valid_str (message_body split_pair_message) \<and>
   message_mentions split_pair_message \<noteq> [] \<and>
   wf_mentions 0 (int (length (expand (message_body split_pair_message))))
     (message_mentions split_pair_message) \<and>
   list_all (resolves puppets) (message_mentions split_pair_message) \<and>
   signal_to_matrix puppets split_pair_message = Inl UnicodeDecodeError"
proof -
  have v: "valid_str (message_body split_pair_message)"
    by (simp add: split_pair_message_def)
  have e: "expand [0x1F600] = [0xD83D, 0xDE00]"
    by (simp add: expand_def expand_char_def high_unit_def low_unit_def)
  have a: "add_surrogate [0x1F600] = Inr [0xD83D, 0xDE00]"
    using add_surrogate_total [of "[0x1F600]"] e by simp
  have w: "wf_mentions 0 (int (length (expand (message_body split_pair_message))))
     (message_mentions split_pair_message)"
    by (simp add: split_pair_message_def e)
  have r: "list_all (resolves puppets) (message_mentions split_pair_message)"
    by (simp add: split_pair_message_def resolves_def puppets_11 name_11
        clean_valid clean_ascii)
  have p: "pyslice [0xD83D, 0xDE00 :: nat] 0 0 = []" "pyslice_from [0xD83D, 0xDE00 :: nat] 1 = [0xDE00]"
    by (simp_all add: pyslice_def pyslice_from_def slice_index_def)
  have d: "del_surrogate (ascii ''Alice'' @ [0xDE00]) = Inl UnicodeDecodeError"
    by (simp add: del_surrogate_eq expand_def expand_char_def ascii_def is_high_def is_low_def)
  have s: "signal_to_matrix puppets split_pair_message = Inl UnicodeDecodeError"
    using d
    by (simp add: signal_to_matrix_def split_pair_message_def a puppets_11 name_11
        add_surrogate_ascii p Let_def)
  from v w r s show ?thesis by (simp add: split_pair_message_def)
qed

section \<open>Properties of the blockquote rule\<close>

lemma split_str_newline:
  "split_str [0x0A] (x # xs) =
     (if x = 0x0A then [] # split_str [0x0A] xs
      else (case split_str [0x0A] xs of [] \<Rightarrow> [[x]] | p # ps \<Rightarrow> (x # p) # ps))"
  by simp

lemma split_str_nonempty: "split_str sep t \<noteq> []"
  by (induction sep t rule: split_str.induct) (auto split: list.splits)

lemma join_from_Cons_entities:
  "entities (join_from sep off (p # ps)) =
     map (shift_entity off) (entities p) @
     entities (join_from sep (off + int (length (text_fs p)) + int (length sep)) ps)"
  by (cases ps) (simp_all add: offset_entities_def Let_def)

lemma join_from_text:
  "ps \<noteq> [] \<Longrightarrow> text_fs (join_from sep off ps) @ sep = concat (map (\<lambda>p. text_fs p @ sep) ps)"
proof (induction sep off ps rule: join_from.induct)
  case (1 sep off)
  then show ?case by simp
next
  case (2 sep off p)
  then show ?case by (simp add: offset_entities_def)
next
  case (3 sep off p q ps)
  then show ?case by (simp add: Let_def)
qed

lemma split_parts_texts: "map text_fs (split_parts n es off ps) = ps"
  by (induction ps arbitrary: off) simp_all

lemma prepend_text: "text_fs (prepend q p) = q @ text_fs p"
  by (simp add: prepend_def offset_entities_def)

lemma prepend_entities: "entities (prepend q p) = map (shift_entity (int (length q))) (entities p)"
  by (simp add: prepend_def offset_entities_def)

lemma quoted_lines:
  "concat (map (\<lambda>p. (q @ p) @ [0x0A]) (split_str [0x0A] t)) =
     q @ concat (map (\<lambda>c. if c = 0x0A then 0x0A # q else [c]) t) @ [0x0A]"
proof (induction t)
  case Nil
  then show ?case by simp
next
  case (Cons x xs)
  show ?case
  proof (cases "x = 0x0A")
    case True
    with Cons show ?thesis by (simp add: split_str_newline)
  next
    case False
    obtain p ps where sp: "split_str [0x0A] xs = p # ps"
      using split_str_nonempty [of "[0x0A]" xs] by (cases "split_str [0x0A] xs") auto
    from Cons sp have "q @ p @ [0x0A] @ concat (map (\<lambda>p. (q @ p) @ [0x0A]) ps) =
        q @ concat (map (\<lambda>c. if c = 0x0A then 0x0A # q else [c]) xs) @ [0x0A]"
      by simp
    then have "p @ [0x0A] @ concat (map (\<lambda>p. (q @ p) @ [0x0A]) ps) =
        concat (map (\<lambda>c. if c = 0x0A then 0x0A # q else [c]) xs) @ [0x0A]"
      by simp
    with False sp show ?thesis by (simp add: split_str_newline)
  qed
qed

lemma line_start_0 [simp]: "line_start ls 0 = 0"
  by (simp add: line_start_def)

lemma line_start_Suc [simp]:
  "line_start (p # ps) (Suc k) = int (length p) + 1 + line_start ps k"
  by (simp add: line_start_def)

lemma upt_0_Suc: "[0..<Suc n] = 0 # map Suc [0..<n]"
  by (simp add: upt_conv_Cons map_Suc_upt del: upt_Suc)

lemma join_split_entities:
  "entities (join_from [0x0A] joff (map (prepend q) (split_parts 1 es off ps))) =
   concat (map (\<lambda>k. map (\<lambda>e. e\<lparr>start := start e + (joff - off) + int (length q) * (int k + 1),
                                   length_m := min (length_m e)
                                     (off + line_start ps k + int (length (ps ! k)) - start e)\<rparr>)
                          (filter (starts_in (off + line_start ps k) (length (ps ! k))) es))
               [0..<length ps])"
proof (induction ps arbitrary: off joff)
  case Nil
  then show ?case by simp
next
  case (Cons p ps)
  let ?F = "\<lambda>ls off joff k.
      map (\<lambda>e. e\<lparr>start := start e + (joff - off) + int (length q) * (int k + 1),
                  length_m := min (length_m e)
                     (off + line_start ls k + int (length (ls ! k)) - start e)\<rparr>)
          (filter (starts_in (off + line_start ls k) (length (ls ! k))) es)"
  have lhs: "entities (join_from [0x0A] joff (map (prepend q) (split_parts 1 es off (p # ps)))) =
      map (shift_entity joff)
          (map (shift_entity (int (length q)))
             (map (rebase_clip off (length p)) (filter (starts_in off (length p)) es))) @
      entities (join_from [0x0A] (joff + int (length (q @ p)) + 1)
                  (map (prepend q) (split_parts 1 es (off + int (length p) + 1) ps)))"
    by (simp add: join_from_Cons_entities prepend_entities prepend_text)
  have first: "map (shift_entity joff)
          (map (shift_entity (int (length q)))
             (map (rebase_clip off (length p)) (filter (starts_in off (length p)) es))) =
        ?F (p # ps) off joff 0"
    by (simp add: shift_entity_def rebase_clip_def algebra_simps)
  have step: "\<And>k. ?F ps (off + int (length p) + 1) (joff + int (length (q @ p)) + 1) k =
                  ?F (p # ps) off joff (Suc k)"
    by (simp add: algebra_simps)
  have rest: "entities (join_from [0x0A] (joff + int (length (q @ p)) + 1)
                  (map (prepend q) (split_parts 1 es (off + int (length p) + 1) ps))) =
     concat (map (\<lambda>k. ?F (p # ps) off joff (Suc k)) [0..<length ps])"
    unfolding Cons.IH step ..
  have rhs: "concat (map (?F (p # ps) off joff) [0..<length (p # ps)]) =
     ?F (p # ps) off joff 0 @ concat (map (\<lambda>k. ?F (p # ps) off joff (Suc k)) [0..<length ps])"
  proof -
    have "[0..<length (p # ps)] = 0 # map Suc [0..<length ps]"
      using upt_0_Suc [of "length ps"] by simp
    then show ?thesis by (simp add: o_def del: upt_Suc)
  qed
  show ?case unfolding lhs first rest rhs ..
qed

lemma trim_text: "text_fs (trim s) = strip (text_fs s)"
  by (simp add: trim_def Let_def)

lemma blockquote_value:
  "format_fs BLOCKQUOTE kw s =
     Inr (join_from [0x0A] 0
            (map (prepend (ascii ''> ''))
               (split_parts 1 (entities (trim s)) 0 (split_str [0x0A] (strip (text_fs s))))))"
  by (simp add: format_fs_def join_def split_def trim_text)

lemma blockquote_text:
  "text_fs (join_from [0x0A] off (map (prepend q) (split_parts n es off' (split_str [0x0A] t)))) =
     q @ concat (map (\<lambda>c. if c = 0x0A then 0x0A # q else [c]) t)"
proof -
  let ?parts = "map (prepend q) (split_parts n es off' (split_str [0x0A] t))"
  have ne: "?parts \<noteq> []"
    using split_str_nonempty [of "[0x0A]" t] split_parts_texts [of n es off' "split_str [0x0A] t"]
    by (metis list.map_disc_iff)
  have tx: "map text_fs ?parts = map ((@) q) (split_str [0x0A] t)"
  proof -
    have "map text_fs ?parts = map ((@) q) (map text_fs (split_parts n es off' (split_str [0x0A] t)))"
      by (simp add: prepend_text o_def)
    then show ?thesis by (simp only: split_parts_texts)
  qed
  have "text_fs (join_from [0x0A] off ?parts) @ [0x0A] =
          concat (map (\<lambda>p. text_fs p @ [0x0A]) ?parts)"
    using ne by (rule join_from_text)
  also have "\<dots> = concat (map (\<lambda>l. l @ [0x0A]) (map text_fs ?parts))"
    by (simp add: o_def)
  also have "\<dots> = concat (map (\<lambda>p. (q @ p) @ [0x0A]) (split_str [0x0A] t))"
    unfolding tx by (simp add: o_def)
  also have "\<dots> = (q @ concat (map (\<lambda>c. if c = 0x0A then 0x0A # q else [c]) t)) @ [0x0A]"
    using quoted_lines [of q t] by simp
  finally show ?thesis by simp
qed

lemma quote_entities_whole:
  assumes "e \<in> set es" and "k < length ls" and "line_start ls k \<le> start e"
    and "0 < length_m e" and "start e + length_m e \<le> line_start ls k + int (length (ls ! k))"
  shows "e\<lparr>start := start e + 2 * (int k + 1)\<rparr> \<in> set (quote_entities ls es)"
proof -
  have si: "starts_in (line_start ls k) (length (ls ! k)) e"
    using assms(3,4,5) by (simp add: starts_in_def)
  have "min (length_m e) (line_start ls k + int (length (ls ! k)) - start e) = length_m e"
    using assms(5) by simp
  then have qe: "quote_entity ls k e = e\<lparr>start := start e + 2 * (int k + 1)\<rparr>"
    by (simp add: quote_entity_def)
  have "quote_entity ls k e \<in> set (map (quote_entity ls k)
           (filter (starts_in (line_start ls k) (length (ls ! k))) es))"
    using assms(1) si by simp
  moreover have "k \<in> set [0..<length ls]" using assms(2) by simp
  ultimately have "quote_entity ls k e \<in> set (quote_entities ls es)"
    unfolding quote_entities_def set_concat by (metis (no_types, lifting) UN_I image_eqI set_map)
  with qe show ?thesis by simp
qed

text \<open>
  Claim C7, as amended.  Applying the blockquote kind never fails and first trims the
  string.  The resulting text is the text stripped of leading and trailing whitespace,
  with \<open>"> "\<close> inserted at its start and after each of its newlines.  The resulting
  entities are, line by line, the entities of the trimmed string that start in that line,
  each moved by two characters for every marker inserted before it and clipped to the end
  of its line; an entity that lies within line \<open>k\<close> keeps its length and has its offset
  in the trimmed text increased by \<open>2 * (k + 1)\<close>.
\<close>

theorem blockquote_rule:
  "\<exists>r. format_fs BLOCKQUOTE kw s = Inr r \<and>
        text_fs r = quote_text (strip (text_fs s)) \<and>
        entities r = quote_entities (split_str [0x0A] (strip (text_fs s))) (entities (trim s)) \<and>
        (\<forall>e k. e \<in> set (entities (trim s)) \<and> k < length (split_str [0x0A] (strip (text_fs s))) \<and>
                line_start (split_str [0x0A] (strip (text_fs s))) k \<le> start e \<and>
                0 < length_m e \<and>
                start e + length_m e \<le> line_start (split_str [0x0A] (strip (text_fs s))) k
                      + int (length (split_str [0x0A] (strip (text_fs s)) ! k))
           \<longrightarrow> e\<lparr>start := start e + 2 * (int k + 1)\<rparr> \<in> set (entities r))"
proof -
  let ?ls = "split_str [0x0A] (strip (text_fs s))" and ?es = "entities (trim s)"
  let ?r = "join_from [0x0A] 0 (map (prepend (ascii ''> '')) (split_parts 1 ?es 0 ?ls))"
  have v: "format_fs BLOCKQUOTE kw s = Inr ?r" by (rule blockquote_value)
  have t: "text_fs ?r = quote_text (strip (text_fs s))"
    by (simp add: blockquote_text quote_text_def)
  have l2: "int (length (ascii ''> '')) = 2" by (simp add: ascii_def)
  have e: "entities ?r = quote_entities ?ls ?es"
    unfolding join_split_entities l2
    by (simp add: quote_entities_def quote_entity_def algebra_simps cong: map_cong)
  have w: "\<forall>e k. e \<in> set ?es \<and> k < length ?ls \<and> line_start ?ls k \<le> start e \<and>
                0 < length_m e \<and>
                start e + length_m e \<le> line_start ?ls k + int (length (?ls ! k))
           \<longrightarrow> e\<lparr>start := start e + 2 * (int k + 1)\<rparr> \<in> set (entities ?r)"
    unfolding e using quote_entities_whole by blast
  from v t e w show ?thesis by blast
qed

lemma quoted_strip:
  "strip (text_fs quoted_message) = ascii ''hi'' @ [0x0A] @ ascii ''Al''"
  by (simp add: quoted_message_def strip_def is_space_def ascii_def)

lemma quoted_trim:
  "entities (trim quoted_message) = [\<lparr>uuid = Some 11, start = 3, length_m = 2\<rparr>]"
  by (simp add: quoted_message_def trim_def strip_def is_space_def ascii_def shift_entity_def)

lemma quoted_lines_value:
  "split_str [0x0A] (ascii ''hi'' @ [0x0A] @ ascii ''Al'') = [ascii ''hi'', ascii ''Al'']"
  by (simp add: ascii_def)

theorem blockquote_rule_witness:
  "\<lparr>uuid = Some 11, start = 3, length_m = 2\<rparr> \<in> set (entities (trim quoted_message)) \<and>
   1 < length (split_str [0x0A] (strip (text_fs quoted_message))) \<and>
   line_start (split_str [0x0A] (strip (text_fs quoted_message))) 1 = 3 \<and>
   length (split_str [0x0A] (strip (text_fs quoted_message)) ! 1) = 2 \<and>
   format_fs BLOCKQUOTE no_kwargs quoted_message =
     Inr \<lparr>text_fs = ascii ''> hi'' @ [0x0A] @ ascii ''> Al'',
          entities = [\<lparr>uuid = Some 11, start = 7, length_m = 2\<rparr>]\<rparr>"
proof -
  from blockquote_rule [of no_kwargs quoted_message] obtain r where
    v: "format_fs BLOCKQUOTE no_kwargs quoted_message = Inr r" and
    t: "text_fs r = quote_text (strip (text_fs quoted_message))" and
    w: "\<forall>e k. e \<in> set (entities (trim quoted_message)) \<and>
                k < length (split_str [0x0A] (strip (text_fs quoted_message))) \<and>
                line_start (split_str [0x0A] (strip (text_fs quoted_message))) k \<le> start e \<and>
                0 < length_m e \<and>
                start e + length_m e \<le> line_start (split_str [0x0A] (strip (text_fs quoted_message))) k
                      + int (length (split_str [0x0A] (strip (text_fs quoted_message)) ! k))
           \<longrightarrow> e\<lparr>start := start e + 2 * (int k + 1)\<rparr> \<in> set (entities r)" and
    e: "entities r = quote_entities (split_str [0x0A] (strip (text_fs quoted_message)))
                       (entities (trim quoted_message))"
    by blast
  have t': "text_fs r = ascii ''> hi'' @ [0x0A] @ ascii ''> Al''"
    unfolding t quoted_strip by (simp add: quote_text_def ascii_def)
  have "[0..<2] = [0, Suc 0]" by (simp add: upt_rec)
  then have e': "entities r = [\<lparr>uuid = Some 11, start = 7, length_m = 2\<rparr>]"
    unfolding e quoted_strip quoted_trim quoted_lines_value
    by (simp add: quote_entities_def quote_entity_def starts_in_def line_start_def ascii_def)
  have h1: "\<lparr>uuid = Some 11, start = 3, length_m = 2\<rparr> \<in> set (entities (trim quoted_message))"
    by (simp add: quoted_trim)
  have h2: "1 < length (split_str [0x0A] (strip (text_fs quoted_message)))"
    unfolding quoted_strip quoted_lines_value by simp
  have h3: "line_start (split_str [0x0A] (strip (text_fs quoted_message))) 1 = 3"
    unfolding quoted_strip quoted_lines_value by (simp add: line_start_def ascii_def)
  have h4: "length (split_str [0x0A] (strip (text_fs quoted_message)) ! 1) = 2"
    unfolding quoted_strip quoted_lines_value by (simp add: ascii_def)
  from w [rule_format, of "\<lparr>uuid = Some 11, start = 3, length_m = 2\<rparr>" 1] h1 h2 h3 h4
  have m: "\<lparr>uuid = Some 11, start = 7, length_m = 2\<rparr> \<in> set (entities r)"
    by simp
  have "r = \<lparr>text_fs = ascii ''> hi'' @ [0x0A] @ ascii ''> Al'',
          entities = [\<lparr>uuid = Some 11, start = 7, length_m = 2\<rparr>]\<rparr>"
    using t' e' by (cases r) simp
  with v h1 h2 h3 h4 m show ?thesis by simp
qed

text \<open>
  The claim as written takes the original text.  For a text with a leading space the
  result is not the original text with the markers inserted: the space is gone.
\<close>

theorem blockquote_trim_counterexample:
  "format_fs BLOCKQUOTE no_kwargs \<lparr>text_fs = ascii '' a'', entities = []\<rparr> =
     Inr \<lparr>text_fs = ascii ''> a'', entities = []\<rparr> \<and>
   quote_text (ascii '' a'') = ascii ''>  a'' \<and>
   ascii ''> a'' \<noteq> ascii ''>  a''"
  by (simp add: format_fs_def join_def split_def trim_def strip_def is_space_def prepend_def
      offset_entities_def quote_text_def ascii_def)

end
